theory Spec2Isabelle
  imports Complex_Main "HOL-Library.Word" "HOL-Library.Log_Nat" "HOL-Library.Code_Target_Nat"
begin

section \<open>JavaScript numbers\<close>

text \<open>
  The library is TypeScript; every \<^verbatim>\<open>number\<close> is an IEEE-754 double.  A number is
  modelled as not-a-number, one of the two infinities, or a finite value carried as
  a rational (every finite double is a dyadic rational).  The two zeros \<^verbatim>\<open>+0\<close> and
  \<^verbatim>\<open>-0\<close> are identified, as \<^verbatim>\<open>===\<close> identifies them; nothing in the library
  tells them apart, since it only divides by 255 and by a number it has tested
  against 0.
\<close>

datatype number = NaN | PosInf | NegInf | Fin rat

text \<open>The global \<^verbatim>\<open>isNaN\<close>, on an argument that already is a number.\<close>

fun isNaN :: "number \<Rightarrow> bool" where
  "isNaN NaN = True"
| "isNaN _ = False"

text \<open>\<^verbatim>\<open>Number.isFinite\<close>: neither not-a-number nor infinite.\<close>

fun isFinite :: "number \<Rightarrow> bool" where
  "isFinite (Fin q) = True"
| "isFinite _ = False"

text \<open>Rounding towards zero.\<close>

definition trunc :: "rat \<Rightarrow> int" where
  "trunc q = (if 0 \<le> q then \<lfloor>q\<rfloor> else - \<lfloor>- q\<rfloor>)"

text \<open>
  The remainder operator \<^verbatim>\<open>n % d\<close> (ECMAScript \<^verbatim>\<open>Number::remainder\<close>): not-a-number
  when either operand is, when the dividend is infinite or when the divisor is zero;
  the dividend itself when the divisor is infinite; otherwise \<open>n - d * q\<close> with \<open>q\<close>
  the quotient truncated towards zero, so that the result has the sign of the
  dividend.  The operation is exact on doubles: no rounding takes place.
\<close>

fun js_rem :: "number \<Rightarrow> number \<Rightarrow> number" where
  "js_rem (Fin n) (Fin d) = (if d = 0 then NaN else Fin (n - d * of_int (trunc (n / d))))"
| "js_rem (Fin n) PosInf = Fin n"
| "js_rem (Fin n) NegInf = Fin n"
| "js_rem _ _ = NaN"

subsection \<open>Rounding to a double\<close>

text \<open>
  The arithmetic operators compute the exact result and round it to the nearest
  double, ties to the even significand.  \<open>ilog2 q\<close> is the exponent of a positive
  rational, the \<open>e\<close> with \<open>2^e \<le> q < 2^(e+1)\<close>; a double of that exponent is a
  multiple of \<open>2^(e - 52)\<close>, and below the smallest normal exponent \<open>-1022\<close> of
  \<open>2^(-1074)\<close>.  A result that rounds to \<open>2^1024\<close> or more overflows to an infinity.
\<close>

definition ilog2 :: "rat \<Rightarrow> int" where
  "ilog2 q = (if 1 \<le> q then bitlen \<lfloor>q\<rfloor> - 1 else - bitlen (\<lceil>1 / q\<rceil> - 1))"

definition round_half_even :: "rat \<Rightarrow> int" where
  "round_half_even t =
     (let f = \<lfloor>t\<rfloor>; d = t - of_int f
      in if d < 1 / 2 then f else if 1 / 2 < d then f + 1
         else if even f then f else f + 1)"

definition fl :: "rat \<Rightarrow> number" where
  "fl q =
     (if q = 0 then Fin 0
      else
        (let e = max (ilog2 \<bar>q\<bar>) (- 1022);
             ulp = 2 powi (e - 52);
             m = round_half_even (\<bar>q\<bar> / ulp);
             r = of_int m * ulp
         in if 2 powi 1024 \<le> r then (if 0 < q then PosInf else NegInf)
            else Fin (sgn q * r)))"

subsection \<open>The operators\<close>

text \<open>
  Unary minus, \<^verbatim>\<open>+\<close>, \<^verbatim>\<open>-\<close>, \<^verbatim>\<open>*\<close> and \<^verbatim>\<open>/\<close> with their IEEE-754 special cases.
  A division of a non-zero number by zero gives an infinity whose sign depends on the
  sign of the zero, which the model does not keep: \<open>js_div\<close> takes the zero to be
  positive there.
\<close>

fun js_neg :: "number \<Rightarrow> number" where
  "js_neg NaN = NaN"
| "js_neg PosInf = NegInf"
| "js_neg NegInf = PosInf"
| "js_neg (Fin x) = Fin (- x)"

fun js_add :: "number \<Rightarrow> number \<Rightarrow> number" where
  "js_add (Fin x) (Fin y) = fl (x + y)"
| "js_add NaN _ = NaN"
| "js_add _ NaN = NaN"
| "js_add PosInf NegInf = NaN"
| "js_add NegInf PosInf = NaN"
| "js_add PosInf _ = PosInf"
| "js_add NegInf _ = NegInf"
| "js_add _ PosInf = PosInf"
| "js_add _ NegInf = NegInf"

definition js_sub :: "number \<Rightarrow> number \<Rightarrow> number" where
  "js_sub a b = js_add a (js_neg b)"

fun js_mul :: "number \<Rightarrow> number \<Rightarrow> number" where
  "js_mul (Fin x) (Fin y) = fl (x * y)"
| "js_mul NaN _ = NaN"
| "js_mul _ NaN = NaN"
| "js_mul (Fin x) PosInf = (if x = 0 then NaN else if 0 < x then PosInf else NegInf)"
| "js_mul (Fin x) NegInf = (if x = 0 then NaN else if 0 < x then NegInf else PosInf)"
| "js_mul PosInf (Fin y) = (if y = 0 then NaN else if 0 < y then PosInf else NegInf)"
| "js_mul NegInf (Fin y) = (if y = 0 then NaN else if 0 < y then NegInf else PosInf)"
| "js_mul PosInf PosInf = PosInf"
| "js_mul PosInf NegInf = NegInf"
| "js_mul NegInf PosInf = NegInf"
| "js_mul NegInf NegInf = PosInf"

fun js_div :: "number \<Rightarrow> number \<Rightarrow> number" where
  "js_div (Fin x) (Fin y) =
     (if y = 0 then (if x = 0 then NaN else if 0 < x then PosInf else NegInf)
      else fl (x / y))"
| "js_div NaN _ = NaN"
| "js_div _ NaN = NaN"
| "js_div (Fin x) PosInf = Fin 0"
| "js_div (Fin x) NegInf = Fin 0"
| "js_div PosInf (Fin y) = (if 0 \<le> y then PosInf else NegInf)"
| "js_div NegInf (Fin y) = (if 0 \<le> y then NegInf else PosInf)"
| "js_div _ _ = NaN"

text \<open>
  \<^verbatim>\<open>Math.round\<close>: the nearest integer, a tie going up; the result is exact.
\<close>

fun Math_round :: "number \<Rightarrow> number" where
  "Math_round (Fin x) = Fin (of_int \<lfloor>x + 1 / 2\<rfloor>)"
| "Math_round v = v"

section \<open>Color (color.ts)\<close>

text \<open>
  The class has four private read-only fields \<^verbatim>\<open>_r\<close>, \<^verbatim>\<open>_g\<close>, \<^verbatim>\<open>_b\<close>, \<^verbatim>\<open>_a\<close> and
  a getter for each; the record fields \<open>color_r\<close>, \<open>color_g\<close>, \<open>color_b\<close>, \<open>color_a\<close>
  stand for both.
\<close>

record Color =
  color_r :: number
  color_g :: number
  color_b :: number
  color_a :: number

text \<open>The errors the library throws, as values.\<close>

datatype error =
  InvalidColorComponents   \<comment> \<open>\<^verbatim>\<open>Error('Invalid color components')\<close>\<close>
| InvalidHexColor string   \<comment> \<open>\<^verbatim>\<open>Error(`Invalid hex color: ${hex}`)\<close>\<close>
| OutOfBounds int int int int
    \<comment> \<open>\<^verbatim>\<open>Error(`Pixel coordinates (${x}, ${y}) are out of bounds for image size ${w}x${h}.`)\<close>\<close>
| RangeError               \<comment> \<open>an array or a typed array of a length out of range\<close>

text \<open>
  \<^verbatim>\<open>constructor(r, g, b, a)\<close>: throws when \<^verbatim>\<open>isNaN\<close> holds of a component, and
  otherwise stores each component's remainder by 256.
\<close>

definition new_Color :: "number \<Rightarrow> number \<Rightarrow> number \<Rightarrow> number \<Rightarrow> error + Color" where
  "new_Color r g b a =
     (if isNaN r \<or> isNaN g \<or> isNaN b \<or> isNaN a then Inl InvalidColorComponents
      else Inr \<lparr>color_r = js_rem r (Fin 256), color_g = js_rem g (Fin 256),
                color_b = js_rem b (Fin 256), color_a = js_rem a (Fin 256)\<rparr>)"

text \<open>An integer as a number.\<close>

definition num :: "int \<Rightarrow> number" where
  "num k = Fin (of_int k)"

text \<open>
  Strings are lists of characters (code units below 256).
  \<^verbatim>\<open>parseInt(string, 16)\<close>, as ECMAScript defines
  it: leading white space is skipped, then an optional sign, then an optional prefix
  \<^verbatim>\<open>0x\<close> or \<^verbatim>\<open>0X\<close>; the value is that of the longest run of hexadecimal digits
  that follows, whatever comes after it, and not-a-number when that run is empty.
  (The strings parsed here have two characters, so the value is exact.)
\<close>

definition is_whitespace :: "char \<Rightarrow> bool" where
  "is_whitespace c = ((of_char c :: int) \<in> {9, 10, 11, 12, 13, 32, 160})"

definition hex_digit :: "char \<Rightarrow> int option" where
  "hex_digit c =
     (let n = (of_char c :: int)
      in if 48 \<le> n \<and> n \<le> 57 then Some (n - 48)
         else if 65 \<le> n \<and> n \<le> 70 then Some (n - 55)
         else if 97 \<le> n \<and> n \<le> 102 then Some (n - 87)
         else None)"

definition parseInt16 :: "string \<Rightarrow> number" where
  "parseInt16 string =
     (let S = dropWhile is_whitespace string;
          sign = (if S \<noteq> [] \<and> hd S = CHR ''-'' then - 1 else 1);
          S = (if S \<noteq> [] \<and> (hd S = CHR ''+'' \<or> hd S = CHR ''-'') then tl S else S);
          S = (if take 2 S = ''0x'' \<or> take 2 S = ''0X'' then drop 2 S else S);
          Z = takeWhile (\<lambda>c. hex_digit c \<noteq> None) S
      in if Z = [] then NaN
         else num (sign * foldl (\<lambda>n c. 16 * n + the (hex_digit c)) 0 Z))"

text \<open>\<^verbatim>\<open>s.slice(i, j)\<close> for \<open>0 \<le> i \<le> j\<close>.\<close>

definition slice_str :: "string \<Rightarrow> nat \<Rightarrow> nat \<Rightarrow> string" where
  "slice_str s i j = take (j - i) (drop i s)"

text \<open>
  \<^verbatim>\<open>Color.fromHex(hex)\<close>: an optional leading \<^verbatim>\<open>#\<close> is dropped; three characters are
  doubled and \<^verbatim>\<open>FF\<close> appended; to six characters \<^verbatim>\<open>FF\<close> is appended; any length
  other than eight is then an error; the four pairs of characters go through
  \<^verbatim>\<open>parseInt\<close> to the constructor.
\<close>

definition fromHex :: "string \<Rightarrow> error + Color" where
  "fromHex hex0 =
     (let hex = (if take 1 hex0 = ''#'' then drop 1 hex0 else hex0);
          hex = (if length hex = 3 then concat (map (\<lambda>c. [c, c]) hex) @ ''FF'' else hex);
          hex = (if length hex = 6 then hex @ ''FF'' else hex)
      in if length hex \<noteq> 8 then Inl (InvalidHexColor hex)
         else new_Color (parseInt16 (slice_str hex 0 2)) (parseInt16 (slice_str hex 2 4))
                (parseInt16 (slice_str hex 4 6)) (parseInt16 (slice_str hex 6 8)))"

text \<open>
  \<^verbatim>\<open>Color.composite(top, bottom)\<close>, statement by statement; the result goes through
  the constructor.  \<^verbatim>\<open>compositeOver\<close> is the same as a method.
\<close>

definition composite :: "Color \<Rightarrow> Color \<Rightarrow> error + Color" where
  "composite top_color bottom_color =
     (let topAlpha = js_div (color_a top_color) (Fin 255);
          bottomAlpha = js_div (color_a bottom_color) (Fin 255);
          resultAlpha = js_add topAlpha (js_mul bottomAlpha (js_sub (Fin 1) topAlpha))
      in if resultAlpha = Fin 0 then new_Color (Fin 0) (Fin 0) (Fin 0) (Fin 0)
         else
           (let r = Math_round (js_div
                      (js_add (js_mul (color_r top_color) topAlpha)
                              (js_mul (js_mul (color_r bottom_color) bottomAlpha) (js_sub (Fin 1) topAlpha)))
                      resultAlpha);
                g = Math_round (js_div
                      (js_add (js_mul (color_g top_color) topAlpha)
                              (js_mul (js_mul (color_g bottom_color) bottomAlpha) (js_sub (Fin 1) topAlpha)))
                      resultAlpha);
                b = Math_round (js_div
                      (js_add (js_mul (color_b top_color) topAlpha)
                              (js_mul (js_mul (color_b bottom_color) bottomAlpha) (js_sub (Fin 1) topAlpha)))
                      resultAlpha);
                a = Math_round (js_mul resultAlpha (Fin 255))
            in new_Color r g b a))"

definition compositeOver :: "Color \<Rightarrow> Color \<Rightarrow> error + Color" where
  "compositeOver this bottom_color = composite this bottom_color"

text \<open>The predefined colors of colors.ts that the image class and its tests use.\<close>

definition Colors_White :: Color where
  "Colors_White = \<lparr>color_r = num 255, color_g = num 255, color_b = num 255, color_a = num 255\<rparr>"

definition Colors_Red :: Color where
  "Colors_Red = \<lparr>color_r = num 255, color_g = num 0, color_b = num 0, color_a = num 255\<rparr>"

definition Colors_Blue :: Color where
  "Colors_Blue = \<lparr>color_r = num 0, color_g = num 0, color_b = num 255, color_a = num 255\<rparr>"

section \<open>Pixel (pixel.ts)\<close>

text \<open>
  A pixel position.  The coordinates, widths and heights are numbers in the source;
  the model carries the integers among them, which is what the traversal and the
  images produce, and computes on them as the source does, in doubles.  \<open>the_int\<close>
  reads a number that is an integer back; it is applied to the sum of an integer and
  1 only, which is an integer again and finite (the largest double plus 1 is
  the largest double).
\<close>

record Pixel =
  pixel_x :: int
  pixel_y :: int

definition the_int :: "number \<Rightarrow> int" where
  "the_int v = (case v of Fin q \<Rightarrow> \<lfloor>q\<rfloor> | _ \<Rightarrow> 0)"

text \<open>
  \<^verbatim>\<open>nextPixel(width, height)\<close>; the result \<open>None\<close> is \<^verbatim>\<open>undefined\<close>.  The sums
  \<^verbatim>\<open>this.x + 1\<close> and \<^verbatim>\<open>this.y + 1\<close> are sums of doubles: from \<open>2^53\<close> on, adding 1
  changes nothing.  The comparisons are exact.
\<close>

definition nextPixel :: "Pixel \<Rightarrow> int \<Rightarrow> int \<Rightarrow> Pixel option" where
  "nextPixel p w h =
     (if the_int (js_add (num (pixel_x p)) (num 1)) \<ge> w then
        (let next = \<lparr>pixel_x = 0, pixel_y = the_int (js_add (num (pixel_y p)) (num 1))\<rparr>
         in if pixel_y next \<ge> h then None else Some next)
      else Some \<lparr>pixel_x = the_int (js_add (num (pixel_x p)) (num 1)), pixel_y = pixel_y p\<rparr>)"

text \<open>
  \<^verbatim>\<open>transform(xTransform, yTransform?)\<close>; an omitted \<^verbatim>\<open>yTransform\<close> is \<open>None\<close>, and
  is then replaced by \<^verbatim>\<open>(y) => xTransform(y)\<close>.
\<close>

definition transform :: "Pixel \<Rightarrow> (int \<Rightarrow> int) \<Rightarrow> (int \<Rightarrow> int) option \<Rightarrow> Pixel" where
  "transform p xTransform yTransform =
     (let yTransformCopy = (case yTransform of None \<Rightarrow> (\<lambda>y. xTransform y) | Some f \<Rightarrow> f)
      in \<lparr>pixel_x = xTransform (pixel_x p), pixel_y = yTransformCopy (pixel_y p)\<rparr>)"

section \<open>JavaScript arrays\<close>

text \<open>
  \<^verbatim>\<open>pixels\<close> is a plain JavaScript array, read and written by index without any
  check.  An array is an object: a finite map from property keys to values, together
  with its \<^verbatim>\<open>length\<close>, which is at most \<open>2^32 - 1\<close>.  The keys used here are
  numbers; two numbers are the same key when they are the same number.  The elements
  of the sequence are the values under the keys \<open>0 .. length - 1\<close>; a key in that
  range without a value is a hole.
\<close>

typedef 'a js_array = "{a :: nat \<times> (number \<rightharpoonup> 'a). fst a \<le> 4294967295}"
  by (rule exI [of _ "(0, Map.empty)"]) simp

setup_lifting type_definition_js_array

lift_definition len :: "'a js_array \<Rightarrow> nat" is fst .

lift_definition props :: "'a js_array \<Rightarrow> number \<rightharpoonup> 'a" is snd .

lift_definition js_empty :: "'a js_array" is "(0, Map.empty)"
  by simp

text \<open>
  An array index is an integer from 0 to \<open>2^32 - 2\<close>.  A write \<^verbatim>\<open>arr[k] = v\<close> under
  an array index at or past the end extends the sequence, leaving holes in between;
  a write under any other key (a negative integer, an integer from \<open>2^32 - 1\<close> on, an
  infinity) creates a property and leaves the length alone.  A read \<^verbatim>\<open>arr[k]\<close>
  returns the value under the key, or \<^verbatim>\<open>undefined\<close>, which is \<open>None\<close>; neither a
  read nor a write ever throws.
\<close>

definition array_index :: "number \<Rightarrow> nat option" where
  "array_index k =
     (case k of
        Fin q \<Rightarrow> if of_int \<lfloor>q\<rfloor> = q \<and> 0 \<le> q \<and> q < 4294967295 then Some (nat \<lfloor>q\<rfloor>) else None
      | _ \<Rightarrow> None)"

lift_definition js_put :: "'a js_array \<Rightarrow> number \<Rightarrow> 'a \<Rightarrow> 'a js_array" is
  "\<lambda>a k v. (case array_index k of
              Some i \<Rightarrow> if fst a \<le> i then Suc i else fst a
            | None \<Rightarrow> fst a,
            (snd a)(k \<mapsto> v))"
  by (auto simp: array_index_def split: option.splits number.splits if_splits)

definition js_at :: "'a js_array \<Rightarrow> number \<Rightarrow> 'a option" where
  "js_at arr k = props arr k"

text \<open>The element under an integer key.\<close>

definition js_get :: "'a js_array \<Rightarrow> int \<Rightarrow> 'a option" where
  "js_get arr i = js_at arr (num i)"

text \<open>
  \<^verbatim>\<open>push(v)\<close> appends one element; it throws a \<^verbatim>\<open>RangeError\<close> when the length
  is \<open>2^32 - 1\<close> already.  \<open>js_append\<close> is the array after a push that succeeds.
\<close>

lift_definition js_append :: "'a js_array \<Rightarrow> 'a \<Rightarrow> 'a js_array" is
  "\<lambda>a v. if fst a < 4294967295 then (Suc (fst a), (snd a)(num (int (fst a)) \<mapsto> v)) else a"
  by auto

definition js_push :: "'a js_array \<Rightarrow> 'a \<Rightarrow> error + 'a js_array" where
  "js_push arr v = (if len arr < 4294967295 then Inr (js_append arr v) else Inl RangeError)"

text \<open>
  \<^verbatim>\<open>forEach((value, index) => ...)\<close> visits the indices below the length in
  order and skips the holes; the callback's effect is a state transformer.
\<close>

definition js_forEach :: "('a \<Rightarrow> nat \<Rightarrow> 's \<Rightarrow> 's) \<Rightarrow> 'a js_array \<Rightarrow> 's \<Rightarrow> 's" where
  "js_forEach f arr s =
     foldl (\<lambda>s k. case js_get arr (int k) of None \<Rightarrow> s | Some v \<Rightarrow> f v k s) s [0..<len arr]"

text \<open>
  A \<^verbatim>\<open>Uint8Array\<close> is a list of bytes.  \<^verbatim>\<open>new Uint8Array(n)\<close> is zero-filled; its
  length is \<open>n\<close> truncated, with not-a-number for 0, and a length below 0 or above
  \<open>2^53 - 1\<close> is a \<^verbatim>\<open>RangeError\<close>.  A store converts the number to a byte
  (not-a-number and the infinities to 0, a finite value truncated and taken modulo
  256), and a store outside the array is ignored.
\<close>

definition new_Uint8Array :: "number \<Rightarrow> error + 8 word list" where
  "new_Uint8Array n =
     (case n of
        NaN \<Rightarrow> Inr []
      | Fin q \<Rightarrow> if trunc q < 0 \<or> 9007199254740991 < trunc q then Inl RangeError
                 else Inr (replicate (nat (trunc q)) 0)
      | _ \<Rightarrow> Inl RangeError)"

definition ToUint8 :: "number \<Rightarrow> 8 word" where
  "ToUint8 v = (case v of Fin q \<Rightarrow> word_of_int (trunc q) | _ \<Rightarrow> 0)"

definition uint8_store :: "8 word list \<Rightarrow> nat \<Rightarrow> number \<Rightarrow> 8 word list" where
  "uint8_store res i v = (if i < length res then res[i := ToUint8 v] else res)"

section \<open>Image (image.ts)\<close>

record Image =
  width :: int
  height :: int
  pixels :: "Color js_array"

text \<open>
  The iterator of \<^verbatim>\<open>[Symbol.iterator]()\<close>: its state is the variable \<^verbatim>\<open>nextEl\<close>,
  a pixel or \<^verbatim>\<open>undefined\<close>, starting at \<^verbatim>\<open>new Pixel(0, 0)\<close>.  \<open>iterator_next\<close> is
  its method \<^verbatim>\<open>next()\<close>: it returns the value to yield, or \<open>None\<close> for
  \<^verbatim>\<open>{done: true}\<close>, together with the new state.
\<close>

definition iterator_next :: "int \<Rightarrow> int \<Rightarrow> Pixel option \<Rightarrow> Pixel option \<times> Pixel option" where
  "iterator_next w h nextEl =
     (let current = nextEl;
          nextEl' = (case nextEl of None \<Rightarrow> None | Some p \<Rightarrow> nextPixel p w h)
      in (current, nextEl'))"

text \<open>
  A \<^verbatim>\<open>for (const pixel of ...)\<close> loop calls \<^verbatim>\<open>next()\<close> until it is done; \<open>for_of\<close>
  is the list of the pixels the loop body sees, and \<open>None\<close> when the loop never ends.
\<close>

partial_function (option) for_of :: "int \<Rightarrow> int \<Rightarrow> Pixel option \<Rightarrow> Pixel list option" where
  "for_of w h nextEl =
     (case iterator_next w h nextEl of
        (None, _) \<Rightarrow> Some []
      | (Some pixel, nextEl') \<Rightarrow> Option.bind (for_of w h nextEl') (\<lambda>rest. Some (pixel # rest)))"

declare for_of.simps [code]

definition Image_iterator :: "Image \<Rightarrow> Pixel list option" where
  "Image_iterator img = for_of (width img) (height img) (Some \<lparr>pixel_x = 0, pixel_y = 0\<rparr>)"

text \<open>
  \<^verbatim>\<open>constructor(width, height, colorCalculator = () => Colors.White)\<close>: a loop over
  the new image itself, with one \<^verbatim>\<open>push\<close> for each pixel; an error of \<^verbatim>\<open>push\<close>
  ends the loop and the construction.  The loop is total: each round makes the array
  longer, and the array cannot be longer than \<open>2^32 - 1\<close>.
\<close>

function constructor_loop ::
  "int \<Rightarrow> int \<Rightarrow> (Pixel \<Rightarrow> Color) \<Rightarrow> Pixel option \<Rightarrow> Color js_array \<Rightarrow> error + Color js_array" where
  "constructor_loop w h colorCalculator nextEl this_pixels =
     (case iterator_next w h nextEl of
        (None, _) \<Rightarrow> Inr this_pixels
      | (Some pixel, nextEl') \<Rightarrow>
          (case js_push this_pixels (colorCalculator pixel) of
             Inl e \<Rightarrow> Inl e
           | Inr this_pixels' \<Rightarrow> constructor_loop w h colorCalculator nextEl' this_pixels'))"
  by pat_completeness auto
termination
proof (relation "measure (\<lambda>(w, h, f, st, arr). 4294967295 - len arr)")
  show "wf (measure (\<lambda>(w, h, f, st, arr). 4294967295 - len arr))"
    by simp
next
  fix w h :: int and colorCalculator :: "Pixel \<Rightarrow> Color" and nextEl x1 x2 :: "Pixel option"
    and arr b :: "Color js_array" and a :: Pixel
  assume "js_push arr (colorCalculator a) = Inr b"
  then have "len arr < 4294967295" and "b = js_append arr (colorCalculator a)"
    by (simp_all add: js_push_def split: if_splits)
  moreover have "len (js_append arr (colorCalculator a)) = Suc (len arr)"
    if "len arr < 4294967295"
    using that by transfer simp
  ultimately show "((w, h, colorCalculator, x2, b), (w, h, colorCalculator, nextEl, arr))
      \<in> measure (\<lambda>(w, h, f, st, arr). 4294967295 - len arr)"
    by simp
qed

declare constructor_loop.simps [simp del]

definition new_Image :: "int \<Rightarrow> int \<Rightarrow> (Pixel \<Rightarrow> Color) option \<Rightarrow> error + Image" where
  "new_Image w h cc =
     (let colorCalculator = (case cc of None \<Rightarrow> (\<lambda>_. Colors_White) | Some f \<Rightarrow> f)
      in case constructor_loop w h colorCalculator (Some \<lparr>pixel_x = 0, pixel_y = 0\<rparr>) js_empty of
           Inl e \<Rightarrow> Inl e
         | Inr this_pixels \<Rightarrow> Inr \<lparr>width = w, height = h, pixels = this_pixels\<rparr>)"

text \<open>
  \<^verbatim>\<open>checkBounds(pixel)\<close> throws for a pixel outside the image and returns nothing
  otherwise.  Neither \<^verbatim>\<open>updatePixel\<close> nor \<^verbatim>\<open>getPixel\<close> calls it: they compute the
  flat index, a product and a sum of doubles, and go to the array.
\<close>

definition checkBounds :: "Image \<Rightarrow> Pixel \<Rightarrow> error + unit" where
  "checkBounds img p =
     (if pixel_x p < 0 \<or> pixel_x p \<ge> width img \<or> pixel_y p < 0 \<or> pixel_y p \<ge> height img
      then Inl (OutOfBounds (pixel_x p) (pixel_y p) (width img) (height img))
      else Inr ())"

definition updatePixel :: "Image \<Rightarrow> Pixel \<Rightarrow> Color \<Rightarrow> Image" where
  "updatePixel img p color =
     (let index = js_add (js_mul (num (pixel_y p)) (num (width img))) (num (pixel_x p))
      in img\<lparr>pixels := js_put (pixels img) index color\<rparr>)"

definition getPixel :: "Image \<Rightarrow> Pixel \<Rightarrow> Color option" where
  "getPixel img p =
     (let index = js_add (js_mul (num (pixel_y p)) (num (width img))) (num (pixel_x p))
      in js_at (pixels img) index)"

text \<open>
  \<^verbatim>\<open>toUint8Array()\<close>: a new byte array of \<open>width * height * 4\<close> bytes, then four
  stores for each element of the sequence.
\<close>

definition store_color :: "Color \<Rightarrow> nat \<Rightarrow> 8 word list \<Rightarrow> 8 word list" where
  "store_color color index res =
     (let i = index * 4;
          res = uint8_store res i (color_r color);
          res = uint8_store res (i + 1) (color_g color);
          res = uint8_store res (i + 2) (color_b color);
          res = uint8_store res (i + 3) (color_a color)
      in res)"

definition toUint8Array :: "Image \<Rightarrow> error + 8 word list" where
  "toUint8Array img =
     (case new_Uint8Array (js_mul (js_mul (num (width img)) (num (height img))) (num 4)) of
        Inl e \<Rightarrow> Inl e
      | Inr res \<Rightarrow> Inr (js_forEach store_color (pixels img) res))"

section \<open>Notions of the specification\<close>

text \<open>
  Row-major order, in the specification's words: the cell at the coordinate \<open>(x, y)\<close>
  of a grid of width \<open>w\<close> has the flat index \<open>y * w + x\<close>.  So the coordinate at the
  flat index \<open>i\<close> is \<open>(i mod w, i div w)\<close>, and the row-major enumeration of a grid
  of width \<open>w\<close> and height \<open>h\<close> lists the coordinates at the indices \<open>0, 1, ...,
  w * h - 1\<close>.
\<close>

definition coordinate_at :: "int \<Rightarrow> nat \<Rightarrow> Pixel" where
  "coordinate_at w i = \<lparr>pixel_x = int i mod w, pixel_y = int i div w\<rparr>"

definition row_major :: "int \<Rightarrow> int \<Rightarrow> Pixel list" where
  "row_major w h = map (coordinate_at w) [0..<nat (w * h)]"

text \<open>The color function in force in the constructor: the default when none is given.\<close>

definition the_colorCalculator :: "(Pixel \<Rightarrow> Color) option \<Rightarrow> Pixel \<Rightarrow> Color" where
  "the_colorCalculator cc = (case cc of None \<Rightarrow> (\<lambda>_. Colors_White) | Some f \<Rightarrow> f)"

text \<open>
  The array without holes of the \<open>n\<close> elements \<open>g 0, ..., g (n - 1)\<close>, and the image
  whose sequence has the color of the coordinate \<open>(x, y)\<close> at the flat index
  \<open>y * w + x\<close>.
\<close>

lift_definition js_tabulate :: "nat \<Rightarrow> (nat \<Rightarrow> 'a) \<Rightarrow> 'a js_array" is
  "\<lambda>n g. (min n 4294967295,
           \<lambda>k. case array_index k of
                  Some i \<Rightarrow> if i < min n 4294967295 then Some (g i) else None
                | None \<Rightarrow> None)"
  by simp

definition row_major_image :: "int \<Rightarrow> int \<Rightarrow> (Pixel \<Rightarrow> Color) option \<Rightarrow> Image" where
  "row_major_image w h cc =
     \<lparr>width = w, height = h,
      pixels = js_tabulate (nat (w * h)) (\<lambda>i. the_colorCalculator cc (coordinate_at w i))\<rparr>"

text \<open>
  The flat index of a pixel as \<^verbatim>\<open>updatePixel\<close> and \<^verbatim>\<open>getPixel\<close> compute it,
  \<^verbatim>\<open>pixel.y * this.width + pixel.x\<close> in doubles, and the test that a number is an
  integer of \<open>[0, n)\<close>.
\<close>

definition flat_index :: "int \<Rightarrow> Pixel \<Rightarrow> number" where
  "flat_index w p = js_add (js_mul (num (pixel_y p)) (num w)) (num (pixel_x p))"

definition index_in :: "number \<Rightarrow> int \<Rightarrow> bool" where
  "index_in k n = (case k of Fin q \<Rightarrow> of_int \<lfloor>q\<rfloor> = q \<and> 0 \<le> q \<and> q < of_int n | _ \<Rightarrow> False)"

text \<open>A sequence of calls of \<^verbatim>\<open>updatePixel\<close> on one image, first to last.\<close>

definition updatePixels :: "Image \<Rightarrow> (Pixel \<times> Color) list \<Rightarrow> Image" where
  "updatePixels img ups = foldl (\<lambda>g (p, c). updatePixel g p c) img ups"

text \<open>A component in range: an integer from 0 to 255.\<close>

definition in_range :: "number \<Rightarrow> bool" where
  "in_range v = (case v of Fin q \<Rightarrow> 0 \<le> q \<and> q \<le> 255 \<and> of_int \<lfloor>q\<rfloor> = q | _ \<Rightarrow> False)"

text \<open>The components of a color in the order of the bytes: red, green, blue, alpha.\<close>

definition channel :: "nat \<Rightarrow> Color \<Rightarrow> number" where
  "channel j c = (if j = 0 then color_r c else if j = 1 then color_g c
                  else if j = 2 then color_b c else color_a c)"

text \<open>
  The image of the test of \<^verbatim>\<open>toUint8Array\<close>: \<^verbatim>\<open>new Image(2, 1)\<close>, then the cell
  \<open>(0, 0)\<close> set to red and the cell \<open>(1, 0)\<close> set to blue.
\<close>

definition red_blue_image :: Image where
  "red_blue_image = updatePixels (projr (new_Image 2 1 None))
     [(\<lparr>pixel_x = 0, pixel_y = 0\<rparr>, Colors_Red), (\<lparr>pixel_x = 1, pixel_y = 0\<rparr>, Colors_Blue)]"

text \<open>The string without its optional leading \<^verbatim>\<open>#\<close>.\<close>

definition strip_hash :: "string \<Rightarrow> string" where
  "strip_hash hex = (if take 1 hex = ''#'' then drop 1 hex else hex)"

text \<open>
  The compositing algorithm in the specification's words: \<open>ta = top.a / 255\<close>,
  \<open>ba = bottom.a / 255\<close>, \<open>ra = ta + ba * (1 - ta)\<close>; the result is \<open>(0, 0, 0, 0)\<close>
  when \<open>ra\<close> is 0, and otherwise each of red, green and blue is
  \<open>round ((top.c * ta + bottom.c * ba * (1 - ta)) / ra)\<close> and alpha is
  \<open>round (ra * 255)\<close>.  The arithmetic is that of doubles; no constructor is involved.
\<close>

definition over_channel :: "number \<Rightarrow> number \<Rightarrow> number \<Rightarrow> number \<Rightarrow> number \<Rightarrow> number" where
  "over_channel tc bc ta ba ra =
     Math_round (js_div (js_add (js_mul tc ta) (js_mul (js_mul bc ba) (js_sub (Fin 1) ta))) ra)"

definition porter_duff_over :: "Color \<Rightarrow> Color \<Rightarrow> Color" where
  "porter_duff_over top_color bottom_color =
     (let ta = js_div (color_a top_color) (Fin 255);
          ba = js_div (color_a bottom_color) (Fin 255);
          ra = js_add ta (js_mul ba (js_sub (Fin 1) ta))
      in if ra = Fin 0 then \<lparr>color_r = Fin 0, color_g = Fin 0, color_b = Fin 0, color_a = Fin 0\<rparr>
         else \<lparr>color_r = over_channel (color_r top_color) (color_r bottom_color) ta ba ra,
               color_g = over_channel (color_g top_color) (color_g bottom_color) ta ba ra,
               color_b = over_channel (color_b top_color) (color_b bottom_color) ta ba ra,
               color_a = Math_round (js_mul ra (Fin 255))\<rparr>)"

section \<open>Properties of the Color constructor\<close>

lemma isNaN_iff: "isNaN v = (v = NaN)"
  by (cases v) simp_all

lemma floor_int_div_256: "\<lfloor>rat_of_int k / 256\<rfloor> = k div 256"
  using floor_divide_of_int_eq [of k 256, where ?'a = rat] by simp

lemma trunc_int_div_256:
  "trunc (rat_of_int k / 256) = (if 0 \<le> k then k div 256 else - ((- k) div 256))"
proof (cases "0 \<le> k")
  case True
  then show ?thesis
    by (simp add: trunc_def floor_int_div_256)
next
  case False
  then have neg: "\<not> 0 \<le> rat_of_int k / 256"
    by simp
  have "- (rat_of_int k / 256) = rat_of_int (- k) / 256" by simp
  then have "\<lfloor>- (rat_of_int k / 256)\<rfloor> = (- k) div 256"
    by (simp only: floor_int_div_256)
  then show ?thesis using False neg
    by (simp add: trunc_def)
qed

lemma js_rem_int_arith:
  "k - 256 * (if 0 \<le> k then k div 256 else - ((- k) div 256))
     = (if 0 \<le> k then k mod 256 else - ((- k) mod (256::int)))"
  by (simp add: minus_mult_div_eq_mod)
     (simp add: mod_eq_0_iff_dvd algebra_simps flip: minus_mult_div_eq_mod)

text \<open>
  On an integer the stored component is JavaScript's remainder: \<open>k mod 256\<close> for a
  non-negative \<open>k\<close>, and \<open>- ((- k) mod 256)\<close> for a negative one.
\<close>

lemma js_rem_int:
  "js_rem (num k) (Fin 256) = num (if 0 \<le> k then k mod 256 else - ((- k) mod 256))"
proof -
  have "rat_of_int k - 256 * rat_of_int (trunc (rat_of_int k / 256))
        = rat_of_int (k - 256 * trunc (rat_of_int k / 256))"
    by simp
  also have "k - 256 * trunc (rat_of_int k / 256)
        = (if 0 \<le> k then k mod 256 else - ((- k) mod 256))"
    unfolding trunc_int_div_256 by (rule js_rem_int_arith)
  finally show ?thesis
    by (simp add: num_def)
qed

lemma new_Color_int:
  "new_Color (num r) (num g) (num b) (num a) =
     Inr \<lparr>color_r = num (if 0 \<le> r then r mod 256 else - ((- r) mod 256)),
          color_g = num (if 0 \<le> g then g mod 256 else - ((- g) mod 256)),
          color_b = num (if 0 \<le> b then b mod 256 else - ((- b) mod 256)),
          color_a = num (if 0 \<le> a then a mod 256 else - ((- a) mod 256))\<rparr>"
  unfolding new_Color_def js_rem_int by (simp add: num_def)

text \<open>
  For non-negative integers the constructor wraps as the specification says, and
  \<^verbatim>\<open>new Color(256, 300, 400, 500)\<close> has the components 0, 44, 144, 244.
\<close>

lemma new_Color_nonneg_int:
  assumes "0 \<le> r" "0 \<le> g" "0 \<le> b" "0 \<le> a"
  shows "new_Color (num r) (num g) (num b) (num a) =
     Inr \<lparr>color_r = num (((r mod 256) + 256) mod 256),
          color_g = num (((g mod 256) + 256) mod 256),
          color_b = num (((b mod 256) + 256) mod 256),
          color_a = num (((a mod 256) + 256) mod 256)\<rparr>"
  unfolding new_Color_int using assms by simp

lemma new_Color_256_300_400_500:
  "new_Color (num 256) (num 300) (num 400) (num 500) =
     Inr \<lparr>color_r = num 0, color_g = num 44, color_b = num 144, color_a = num 244\<rparr>"
  unfolding new_Color_int by simp

text \<open>
  Claim C2.  The specification asks that for all integers, negative ones included,
  the component stored for \<open>r\<close> be \<open>((r mod 256) + 256) mod 256\<close>, a value between 0
  and 255.  The constructor computes \<^verbatim>\<open>r % 256\<close>, whose result has the sign of \<open>r\<close>:
  \<^verbatim>\<open>new Color(-1, 0, 0, 0)\<close> stores \<open>-1\<close> where the specification says 255.
\<close>

theorem C2_negative_component_keeps_sign:
  "new_Color (num (- 1)) (num 0) (num 0) (num 0) =
     Inr \<lparr>color_r = num (- 1), color_g = num 0, color_b = num 0, color_a = num 0\<rparr>
   \<and> (((- 1) mod 256) + 256) mod 256 = (255::int)
   \<and> num (- 1) \<noteq> num 255"
  unfolding new_Color_int by (simp add: num_def)

text \<open>
  The constructor fails, with the invalid-components error, exactly when one of its
  four arguments is not-a-number.
\<close>

lemma new_Color_fails_iff_NaN:
  "(new_Color r g b a = Inl InvalidColorComponents) = (r = NaN \<or> g = NaN \<or> b = NaN \<or> a = NaN)"
  "(\<exists>c. new_Color r g b a = Inr c) = (r \<noteq> NaN \<and> g \<noteq> NaN \<and> b \<noteq> NaN \<and> a \<noteq> NaN)"
  by (auto simp: new_Color_def isNaN_iff)

text \<open>
  Claim C5.  The specification asks that the construction fail when a component is
  not a finite number, an infinite one included.  The guard of the constructor,
  which is there to keep not-a-number out of a color, tests the arguments with
  \<^verbatim>\<open>isNaN\<close> only.  \<^verbatim>\<open>isNaN(Infinity)\<close> is false: \<^verbatim>\<open>new Color(Infinity, 0, 0, 0)\<close>
  throws nothing, and the component it stores, \<^verbatim>\<open>Infinity % 256\<close>, is not-a-number,
  where the doc comments of the field and of its getter promise a value from 0 to
  255.
\<close>

theorem C5_infinite_component_accepted:
  "\<not> isFinite PosInf
   \<and> new_Color PosInf (num 0) (num 0) (num 0) =
       Inr \<lparr>color_r = NaN, color_g = num 0, color_b = num 0, color_a = num 0\<rparr>"
  by (simp add: new_Color_def num_def trunc_def)

section \<open>Integers in double arithmetic\<close>

text \<open>Evaluating the rounding on numerals.\<close>

lemma floor_numeral_div: "\<lfloor>numeral a / numeral b :: rat\<rfloor> = numeral a div numeral b"
  using floor_divide_of_int_eq [of "numeral a" "numeral b", where ?'a = rat] by simp

lemma ceiling_numeral_div: "\<lceil>numeral a / numeral b :: rat\<rceil> = - ((- numeral a) div numeral b)"
  using floor_divide_of_int_eq [of "- numeral a" "numeral b", where ?'a = rat]
  by (simp add: ceiling_def)

lemma floor_one_div: "\<lfloor>1 / numeral b :: rat\<rfloor> = 1 div numeral b"
  using floor_divide_of_int_eq [of 1 "numeral b", where ?'a = rat] by simp

lemma ceiling_one_div: "\<lceil>1 / numeral b :: rat\<rceil> = - ((- 1) div numeral b)"
  using floor_divide_of_int_eq [of "- 1" "numeral b", where ?'a = rat]
  by (simp add: ceiling_def)

lemmas fl_eval = floor_one_div ceiling_one_div fl_def ilog2_def compute_bitlen round_half_even_def Let_def
  floor_numeral_div ceiling_numeral_div

lemma ilog2_lower:
  assumes "0 < q"
  shows "2 powi (ilog2 q) \<le> q"
proof (cases "1 \<le> q")
  case True
  then have pos: "0 < \<lfloor>q\<rfloor>" by simp
  have nn: "0 \<le> bitlen \<lfloor>q\<rfloor> - 1"
    using pos by (simp add: bitlen_alt_def)
  have "(2::int) ^ nat (bitlen \<lfloor>q\<rfloor> - 1) \<le> \<lfloor>q\<rfloor>"
    using bitlen_bounds [OF pos] by simp
  then have "rat_of_int (2 ^ nat (bitlen \<lfloor>q\<rfloor> - 1)) \<le> rat_of_int \<lfloor>q\<rfloor>"
    by (simp only: of_int_le_iff)
  also have "\<dots> \<le> q" by simp
  finally have "(2::rat) ^ nat (bitlen \<lfloor>q\<rfloor> - 1) \<le> q" by simp
  moreover have "(2::rat) powi (bitlen \<lfloor>q\<rfloor> - 1) = 2 ^ nat (bitlen \<lfloor>q\<rfloor> - 1)"
    using nn by (simp add: power_int_def)
  ultimately show ?thesis
    using True by (simp add: ilog2_def)
next
  case False
  then have q1: "q < 1" by simp
  let ?n = "\<lceil>1 / q\<rceil> - 1"
  have "1 < 1 / q" using assms q1 by simp
  then have "2 \<le> \<lceil>1 / q\<rceil>" by (simp add: le_ceiling_iff)
  then have pos: "0 < ?n" by simp
  have "\<lceil>1 / q\<rceil> \<le> 2 ^ nat (bitlen ?n)"
    using bitlen_bounds [OF pos] by simp
  then have "rat_of_int \<lceil>1 / q\<rceil> \<le> rat_of_int (2 ^ nat (bitlen ?n))"
    by (simp only: of_int_le_iff)
  moreover have "1 / q \<le> rat_of_int \<lceil>1 / q\<rceil>"
    by (rule le_of_int_ceiling)
  ultimately have "1 / q \<le> rat_of_int (2 ^ nat (bitlen ?n))"
    by (rule order_trans [rotated])
  then have "1 / q \<le> 2 ^ nat (bitlen ?n)"
    by simp
  then have "1 \<le> 2 ^ nat (bitlen ?n) * q"
    using assms by (simp add: field_simps)
  then have "1 / 2 ^ nat (bitlen ?n) \<le> q"
    by (simp add: field_simps)
  moreover have "(2::rat) powi (- bitlen ?n) = 1 / 2 ^ nat (bitlen ?n)"
    using bitlen_nonneg [of ?n] by (simp add: power_int_def field_simps)
  ultimately show ?thesis
    using False by (simp add: ilog2_def)
qed

text \<open>
  An integer of absolute value at most \<open>2^53\<close> is a double: rounding leaves it as it
  is, so sums and products of integers are exact as long as the result stays in that
  range.  Above, they are not: \<open>2^53 + 1\<close> is rounded to \<open>2^53\<close>.
\<close>

lemma round_half_even_of_int: "round_half_even (rat_of_int n) = n"
  by (simp add: round_half_even_def)

lemma fl_of_int_less:
  assumes "\<bar>k\<bar> < 2 ^ 53"
  shows "fl (rat_of_int k) = Fin (rat_of_int k)"
proof (cases "k = 0")
  case True
  then show ?thesis by (simp add: fl_def)
next
  case False
  define q where "q = rat_of_int k"
  have q0: "q \<noteq> 0" and qpos: "0 < \<bar>q\<bar>"
    using False by (simp_all add: q_def)
  define e where "e = max (ilog2 \<bar>q\<bar>) (- 1022)"
  define j where "j = nat (52 - e)"
  have "(2::rat) powi (ilog2 \<bar>q\<bar>) \<le> \<bar>q\<bar>"
    using qpos by (rule ilog2_lower)
  also have "\<bar>q\<bar> < 2 powi 53"
  proof -
    have "rat_of_int \<bar>k\<bar> < rat_of_int (2 ^ 53)"
      using assms by (simp only: of_int_less_iff)
    then show ?thesis by (simp add: q_def)
  qed
  finally have "ilog2 \<bar>q\<bar> < 53"
    by (rule power_int_le_imp_less_exp [rotated]) simp_all
  then have e52: "e \<le> 52"
    by (simp add: e_def)
  then have ej: "e - 52 = - int j"
    by (simp add: j_def)
  have ulp: "(2::rat) powi (e - 52) = 1 / 2 ^ j"
    unfolding ej by (simp add: power_int_minus_divide)
  have quot: "\<bar>q\<bar> / (2 powi (e - 52)) = rat_of_int (\<bar>k\<bar> * 2 ^ j)"
    unfolding ulp by (simp add: q_def)
  have m: "round_half_even (\<bar>q\<bar> / (2 powi (e - 52))) = \<bar>k\<bar> * 2 ^ j"
    unfolding quot by (rule round_half_even_of_int)
  have r: "rat_of_int (\<bar>k\<bar> * 2 ^ j) * (2 powi (e - 52)) = \<bar>q\<bar>"
    unfolding ulp by (simp add: q_def)
  have "\<bar>q\<bar> < 2 powi 1024"
  proof -
    have "rat_of_int \<bar>k\<bar> < rat_of_int (2 ^ 53)"
      using assms by (simp only: of_int_less_iff)
    also have "\<dots> \<le> 2 ^ 1024" by simp
    finally show ?thesis by (simp add: q_def)
  qed
  then have no: "\<not> 2 powi 1024 \<le> \<bar>q\<bar>"
    by simp
  have "fl q = Fin (sgn q * \<bar>q\<bar>)"
    using q0 no unfolding fl_def Let_def e_def [symmetric] m r by simp
  also have "sgn q * \<bar>q\<bar> = q"
    by (rule sgn_mult_abs)
  finally show ?thesis
    by (simp only: q_def)
qed

lemma fl_two_53: "fl 9007199254740992 = Fin 9007199254740992"
  "fl (- 9007199254740992) = Fin (- 9007199254740992)"
  by (simp_all add: fl_eval)

lemma fl_of_int:
  assumes "\<bar>k\<bar> \<le> 9007199254740992"
  shows "fl (rat_of_int k) = Fin (rat_of_int k)"
proof -
  consider "\<bar>k\<bar> < 2 ^ 53" | "k = 9007199254740992" | "k = - 9007199254740992"
    using assms by fastforce
  then show ?thesis
  proof cases
    case 1
    then show ?thesis by (rule fl_of_int_less)
  next
    case 2
    then show ?thesis by (simp add: fl_two_53)
  next
    case 3
    then show ?thesis by (simp add: fl_two_53)
  qed
qed

lemma js_add_int:
  "\<bar>a + b\<bar> \<le> 9007199254740992 \<Longrightarrow> js_add (num a) (num b) = num (a + b)"
  using fl_of_int [of "a + b"] by (simp add: num_def)

lemma js_mul_int:
  "\<bar>a * b\<bar> \<le> 9007199254740992 \<Longrightarrow> js_mul (num a) (num b) = num (a * b)"
  using fl_of_int [of "a * b"] by (simp add: num_def)

lemma the_int_num: "the_int (num k) = k"
  by (simp add: the_int_def num_def)

lemma num_eq_iff: "(num a = num b) = (a = b)"
  by (simp add: num_def)

lemma plus_one_exact:
  "\<bar>k + 1\<bar> \<le> 9007199254740992 \<Longrightarrow> the_int (js_add (num k) (num 1)) = k + 1"
  by (simp add: js_add_int the_int_num)

lemma plus_one_stuck:
  "the_int (js_add (num 9007199254740992) (num 1)) = 9007199254740992"
  by (simp add: num_def the_int_def fl_eval)

section \<open>Properties of the arrays\<close>

lemma len_le: "len arr \<le> 4294967295"
  by transfer simp

lemma len_js_empty: "len js_empty = 0"
  by transfer simp

lemma props_js_empty: "props js_empty k = None"
  by transfer simp

lemma len_js_put:
  "len (js_put arr k v) =
     (case array_index k of Some i \<Rightarrow> if len arr \<le> i then Suc i else len arr | None \<Rightarrow> len arr)"
  by transfer simp

lemma props_js_put: "props (js_put arr k v) = (props arr)(k \<mapsto> v)"
  by transfer simp

lemma len_js_append: "len arr < 4294967295 \<Longrightarrow> len (js_append arr v) = Suc (len arr)"
  by transfer simp

lemma props_js_append:
  "len arr < 4294967295 \<Longrightarrow> props (js_append arr v) = (props arr)(num (int (len arr)) \<mapsto> v)"
  by transfer simp

lemma js_array_eqI: "len a = len b \<Longrightarrow> props a = props b \<Longrightarrow> a = b"
  by transfer (simp add: prod_eq_iff)

lemma len_js_tabulate: "len (js_tabulate n g) = min n 4294967295"
  by transfer simp

lemma props_js_tabulate:
  "props (js_tabulate n g) k =
     (case array_index k of
        Some i \<Rightarrow> if i < min n 4294967295 then Some (g i) else None
      | None \<Rightarrow> None)"
  by transfer simp

lemma array_index_num:
  "array_index (num i) = (if 0 \<le> i \<and> i < 4294967295 then Some (nat i) else None)"
  by (simp add: array_index_def num_def)

lemma array_index_Some:
  "array_index k = Some i \<Longrightarrow> k = num (int i) \<and> i < 4294967295"
  by (auto simp: array_index_def num_def split: number.splits if_splits)

lemma js_tabulate_0: "js_tabulate 0 g = js_empty"
  by (rule js_array_eqI)
     (auto simp: len_js_tabulate len_js_empty props_js_tabulate props_js_empty fun_eq_iff
           split: option.splits)

lemma js_append_tabulate:
  assumes "n < 4294967295"
  shows "js_append (js_tabulate n g) (g n) = js_tabulate (Suc n) g"
proof (rule js_array_eqI)
  have l: "len (js_tabulate n g) = n"
    using assms by (simp add: len_js_tabulate)
  show "len (js_append (js_tabulate n g) (g n)) = len (js_tabulate (Suc n) g)"
    using assms by (simp add: len_js_append l) (simp add: len_js_tabulate)
  show "props (js_append (js_tabulate n g) (g n)) = props (js_tabulate (Suc n) g)"
  proof (rule ext)
    fix k
    show "props (js_append (js_tabulate n g) (g n)) k = props (js_tabulate (Suc n) g) k"
    proof (cases "array_index k")
      case None
      then have "k \<noteq> num (int n)"
        using assms by (auto simp: array_index_num)
      then show ?thesis
        using assms None by (simp add: props_js_append l props_js_tabulate)
    next
      case (Some i)
      then have k: "k = num (int i)"
        by (simp add: array_index_Some)
      show ?thesis
        using assms Some
        by (auto simp: props_js_append l props_js_tabulate k num_eq_iff less_Suc_eq)
    qed
  qed
qed

lemma js_push_tabulate:
  "n < 4294967295 \<Longrightarrow> js_push (js_tabulate n g) (g n) = Inr (js_tabulate (Suc n) g)"
  by (simp add: js_push_def len_js_tabulate js_append_tabulate)

lemma js_push_full:
  "4294967295 \<le> n \<Longrightarrow> js_push (js_tabulate n g) v = Inl RangeError"
  by (simp add: js_push_def len_js_tabulate)

section \<open>The iteration is the row-major enumeration\<close>

lemma for_of_None: "for_of w h None = Some []"
  by (subst for_of.simps) (simp add: iterator_next_def)

lemma for_of_Some:
  "for_of w h (Some p) = Option.bind (for_of w h (nextPixel p w h)) (\<lambda>rest. Some (p # rest))"
  by (subst for_of.simps) (simp add: iterator_next_def)

lemma cell_index_less:
  fixes w h x y :: int
  assumes "0 \<le> x" "x < w" "0 \<le> y" "y < h"
  shows "y * w + x < w * h"
proof -
  have "(y + 1) * w \<le> h * w"
    using assms by (intro mult_right_mono) auto
  then show ?thesis using assms by (simp add: algebra_simps)
qed

lemma cell_index_nonneg:
  fixes w x y :: int
  assumes "0 \<le> x" "x < w" "0 \<le> y"
  shows "0 \<le> y * w + x"
  using assms by simp

lemma coordinate_at_cell_index:
  assumes "0 \<le> x" "x < w" "0 \<le> y"
  shows "coordinate_at w (nat (y * w + x)) = \<lparr>pixel_x = x, pixel_y = y\<rparr>"
  using assms by (simp add: coordinate_at_def cell_index_nonneg)

lemma nextPixel_in_grid:
  assumes "0 \<le> x" "x < w" "w \<le> 9007199254740992" "0 \<le> y" "y < h" "h \<le> 9007199254740992"
  shows "nextPixel \<lparr>pixel_x = x, pixel_y = y\<rparr> w h =
     (if x + 1 < w then Some \<lparr>pixel_x = x + 1, pixel_y = y\<rparr>
      else if y + 1 < h then Some \<lparr>pixel_x = 0, pixel_y = y + 1\<rparr> else None)"
proof -
  have "the_int (js_add (num x) (num 1)) = x + 1"
    using assms by (intro plus_one_exact) simp
  moreover have "the_int (js_add (num y) (num 1)) = y + 1"
    using assms by (intro plus_one_exact) simp
  ultimately show ?thesis
    by (simp add: nextPixel_def Let_def)
qed

lemma for_of_from:
  assumes "0 \<le> x" "x < w" "w \<le> 9007199254740992" "0 \<le> y" "y < h" "h \<le> 9007199254740992"
  shows "for_of w h (Some \<lparr>pixel_x = x, pixel_y = y\<rparr>)
           = Some (map (coordinate_at w) [nat (y * w + x)..<nat (w * h)])"
  using assms
proof (induction "nat (w * h) - nat (y * w + x)" arbitrary: x y rule: less_induct)
  case less
  let ?p = "\<lparr>pixel_x = x, pixel_y = y\<rparr>"
  have lt: "y * w + x < w * h"
    using less.prems(1,2,4,5) by (rule cell_index_less)
  have ge: "0 \<le> y * w + x"
    using less.prems by (simp add: cell_index_nonneg)
  have here: "coordinate_at w (nat (y * w + x)) = ?p"
    using less.prems by (simp add: coordinate_at_cell_index)
  have idx_lt: "nat (y * w + x) < nat (w * h)"
    using lt ge by simp
  have idx_suc: "nat (y * w + x + 1) = Suc (nat (y * w + x))"
    using ge by simp
  have split: "[nat (y * w + x)..<nat (w * h)]
      = nat (y * w + x) # [nat (y * w + x + 1)..<nat (w * h)]"
    using upt_conv_Cons [OF idx_lt] by (simp only: idx_suc)
  have decr: "nat (w * h) - nat (y * w + x + 1) < nat (w * h) - nat (y * w + x)"
    using idx_lt by (simp only: idx_suc)
  have nxt: "nextPixel ?p w h =
     (if x + 1 < w then Some \<lparr>pixel_x = x + 1, pixel_y = y\<rparr>
      else if y + 1 < h then Some \<lparr>pixel_x = 0, pixel_y = y + 1\<rparr> else None)"
    using less.prems by (rule nextPixel_in_grid)
  have rest: "for_of w h (nextPixel ?p w h)
      = Some (map (coordinate_at w) [nat (y * w + x + 1)..<nat (w * h)])"
  proof (cases "x + 1 < w")
    case True
    then have nxt': "nextPixel ?p w h = Some \<lparr>pixel_x = x + 1, pixel_y = y\<rparr>"
      by (simp add: nxt)
    have eq: "y * w + (x + 1) = y * w + x + 1"
      by simp
    have "for_of w h (Some \<lparr>pixel_x = x + 1, pixel_y = y\<rparr>)
        = Some (map (coordinate_at w) [nat (y * w + (x + 1))..<nat (w * h)])"
    proof (rule less.hyps)
      show "nat (w * h) - nat (y * w + (x + 1)) < nat (w * h) - nat (y * w + x)"
        using decr by (simp only: eq)
    qed (use True less.prems in auto)
    then show ?thesis
      by (simp only: nxt' eq)
  next
    case False
    note nx = False
    then have xw: "x = w - 1" using less.prems by simp
    show ?thesis
    proof (cases "y + 1 < h")
      case True
      then have nxt': "nextPixel ?p w h = Some \<lparr>pixel_x = 0, pixel_y = y + 1\<rparr>"
        using nx by (simp add: nxt)
      have eq: "(y + 1) * w + 0 = y * w + x + 1"
        using xw by (simp add: algebra_simps)
      have "for_of w h (Some \<lparr>pixel_x = 0, pixel_y = y + 1\<rparr>)
          = Some (map (coordinate_at w) [nat ((y + 1) * w + 0)..<nat (w * h)])"
      proof (rule less.hyps)
        show "nat (w * h) - nat ((y + 1) * w + 0) < nat (w * h) - nat (y * w + x)"
          using decr by (simp only: eq)
      qed (use True less.prems in auto)
      then show ?thesis
        by (simp only: nxt' eq)
    next
      case False
      then have yh: "y = h - 1" using less.prems by simp
      have nxt': "nextPixel ?p w h = None"
        using nx False by (simp add: nxt)
      have "(h - 1) * w + (w - 1) + 1 = w * h"
        by (simp add: algebra_simps)
      then have "y * w + x + 1 = w * h"
        by (simp only: xw yh)
      then have "[nat (y * w + x + 1)..<nat (w * h)] = []"
        by simp
      then show ?thesis
        by (simp add: nxt' for_of_None)
    qed
  qed
  show ?case
    by (simp only: for_of_Some [of w h ?p] rest split here list.map bind.bind_lunit)
qed

lemma for_of_row_major:
  assumes "1 \<le> w" "w \<le> 9007199254740992" "1 \<le> h" "h \<le> 9007199254740992"
  shows "for_of w h (Some \<lparr>pixel_x = 0, pixel_y = 0\<rparr>) = Some (row_major w h)"
  using for_of_from [of 0 w 0 h] assms by (simp add: row_major_def)

text \<open>
  A pixel that is its own successor is yielded for ever; this is what happens at
  \<open>x = 2^53\<close> in a row that is wider than that.
\<close>

lemma for_of_stuck:
  assumes "nextPixel p w h = Some p"
  shows "for_of w h (Some p) = None"
proof (cases "for_of w h (Some p)")
  case None
  then show ?thesis .
next
  case (Some ps)
  have "for_of w h (Some p) = Option.bind (for_of w h (Some p)) (\<lambda>rest. Some (p # rest))"
    using for_of_Some [of w h p] by (simp only: assms)
  then have "ps = p # ps"
    by (simp add: Some)
  then show ?thesis by simp
qed

lemma nextPixel_stuck:
  "nextPixel \<lparr>pixel_x = 9007199254740992, pixel_y = 0\<rparr> 9007199254740994 1 =
     Some \<lparr>pixel_x = 9007199254740992, pixel_y = 0\<rparr>"
  by (simp add: nextPixel_def plus_one_stuck)

lemma for_of_never_ends:
  assumes "0 \<le> x" "x \<le> 9007199254740992"
  shows "for_of 9007199254740994 1 (Some \<lparr>pixel_x = x, pixel_y = 0\<rparr>) = None"
  using assms
proof (induction "nat (9007199254740992 - x)" arbitrary: x rule: less_induct)
  case less
  show ?case
  proof (cases "x = 9007199254740992")
    case True
    then show ?thesis
      using for_of_stuck [OF nextPixel_stuck] by simp
  next
    case False
    then have lt: "x < 9007199254740992" using less.prems by simp
    have "the_int (js_add (num x) (num 1)) = x + 1"
      using less.prems lt by (intro plus_one_exact) simp
    then have nxt: "nextPixel \<lparr>pixel_x = x, pixel_y = 0\<rparr> 9007199254740994 1
        = Some \<lparr>pixel_x = x + 1, pixel_y = 0\<rparr>"
      using lt by (simp add: nextPixel_def)
    have "for_of 9007199254740994 1 (Some \<lparr>pixel_x = x + 1, pixel_y = 0\<rparr>) = None"
      using less.prems lt by (intro less.hyps) simp_all
    then show ?thesis
      by (simp add: for_of_Some [of _ _ "\<lparr>pixel_x = x, pixel_y = 0\<rparr>"] nxt)
  qed
qed

lemma nextPixel_stuck_row:
  "nextPixel \<lparr>pixel_x = 0, pixel_y = 9007199254740992\<rparr> 1 9007199254740994 =
     Some \<lparr>pixel_x = 0, pixel_y = 9007199254740992\<rparr>"
proof -
  have "the_int (js_add (num 0) (num 1)) = 1"
    using plus_one_exact [of 0] by simp
  then show ?thesis
    by (simp add: nextPixel_def plus_one_stuck)
qed

lemma for_of_never_ends_row:
  assumes "0 \<le> y" "y \<le> 9007199254740992"
  shows "for_of 1 9007199254740994 (Some \<lparr>pixel_x = 0, pixel_y = y\<rparr>) = None"
  using assms
proof (induction "nat (9007199254740992 - y)" arbitrary: y rule: less_induct)
  case less
  show ?case
  proof (cases "y = 9007199254740992")
    case True
    then show ?thesis
      using for_of_stuck [OF nextPixel_stuck_row] by simp
  next
    case False
    then have lt: "y < 9007199254740992" using less.prems by simp
    have x1: "the_int (js_add (num 0) (num 1)) = 1"
      using plus_one_exact [of 0] by simp
    have "the_int (js_add (num y) (num 1)) = y + 1"
      using less.prems lt by (intro plus_one_exact) simp
    then have nxt: "nextPixel \<lparr>pixel_x = 0, pixel_y = y\<rparr> 1 9007199254740994
        = Some \<lparr>pixel_x = 0, pixel_y = y + 1\<rparr>"
      using lt by (simp add: nextPixel_def x1)
    have "for_of 1 9007199254740994 (Some \<lparr>pixel_x = 0, pixel_y = y + 1\<rparr>) = None"
      using less.prems lt by (intro less.hyps) simp_all
    then show ?thesis
      by (simp add: for_of_Some [of _ _ "\<lparr>pixel_x = 0, pixel_y = y\<rparr>"] nxt)
  qed
qed

lemma coordinate_at_inj: "coordinate_at w i = coordinate_at w j \<Longrightarrow> i = j"
proof -
  assume "coordinate_at w i = coordinate_at w j"
  then have m: "int i mod w = int j mod w" and d: "int i div w = int j div w"
    by (simp_all add: coordinate_at_def)
  have "int i = int i div w * w + int i mod w" by simp
  also have "\<dots> = int j div w * w + int j mod w" by (simp only: m d)
  also have "\<dots> = int j" by simp
  finally show "i = j" by simp
qed

lemma length_row_major: "length (row_major w h) = nat (w * h)"
  by (simp add: row_major_def)

lemma nth_row_major: "i < nat (w * h) \<Longrightarrow> row_major w h ! i = coordinate_at w i"
  by (simp add: row_major_def)

lemma distinct_row_major: "distinct (row_major w h)"
  unfolding row_major_def distinct_map
  by (auto intro!: inj_onI dest: coordinate_at_inj)

lemma coordinate_at_in_grid:
  assumes "1 \<le> w" "i < nat (w * h)"
  shows "0 \<le> pixel_x (coordinate_at w i) \<and> pixel_x (coordinate_at w i) < w
       \<and> 0 \<le> pixel_y (coordinate_at w i) \<and> pixel_y (coordinate_at w i) < h"
proof -
  have lt: "int i < w * h" using assms by simp
  have "int i div w < h"
  proof (rule ccontr)
    assume "\<not> int i div w < h"
    then have "h \<le> int i div w" by simp
    then have "h * w \<le> int i div w * w"
      using assms by (intro mult_right_mono) auto
    also have "\<dots> = int i - int i mod w"
      by (simp only: minus_mod_eq_div_mult)
    also have "\<dots> \<le> int i"
      using assms by simp
    finally show False using lt by (simp add: mult.commute)
  qed
  moreover have "0 \<le> int i div w"
    using assms by (simp add: pos_imp_zdiv_nonneg_iff)
  ultimately show ?thesis
    using assms by (simp add: coordinate_at_def)
qed

lemma set_row_major:
  assumes "1 \<le> w"
  shows "set (row_major w h) =
    {p. 0 \<le> pixel_x p \<and> pixel_x p < w \<and> 0 \<le> pixel_y p \<and> pixel_y p < h}"
proof (intro set_eqI iffI)
  fix p :: Pixel assume "p \<in> set (row_major w h)"
  then obtain i where "i < nat (w * h)" "p = coordinate_at w i"
    by (auto simp: row_major_def)
  then show "p \<in> {p. 0 \<le> pixel_x p \<and> pixel_x p < w \<and> 0 \<le> pixel_y p \<and> pixel_y p < h}"
    using coordinate_at_in_grid [OF assms, of i h] by simp
next
  fix p :: Pixel assume "p \<in> {p. 0 \<le> pixel_x p \<and> pixel_x p < w \<and> 0 \<le> pixel_y p \<and> pixel_y p < h}"
  then have b: "0 \<le> pixel_x p" "pixel_x p < w" "0 \<le> pixel_y p" "pixel_y p < h"
    by simp_all
  have "coordinate_at w (nat (pixel_y p * w + pixel_x p)) = \<lparr>pixel_x = pixel_x p, pixel_y = pixel_y p\<rparr>"
    using b by (intro coordinate_at_cell_index)
  then have "coordinate_at w (nat (pixel_y p * w + pixel_x p)) = p"
    by simp
  moreover have "nat (pixel_y p * w + pixel_x p) < nat (w * h)"
    using cell_index_less [OF b] cell_index_nonneg [OF b(1,2,3)] by simp
  ultimately show "p \<in> set (row_major w h)"
    unfolding row_major_def by (metis atLeast0LessThan imageI lessThan_iff set_map set_upt)
qed

lemma hd_row_major:
  assumes "1 \<le> w" "1 \<le> h"
  shows "hd (row_major w h) = \<lparr>pixel_x = 0, pixel_y = 0\<rparr>"
proof -
  have "0 < w * h" using assms by simp
  then have "0 < nat (w * h)" by simp
  then have "hd (row_major w h) = coordinate_at w 0"
    unfolding row_major_def by (simp add: hd_map upt_conv_Cons)
  then show ?thesis by (simp add: coordinate_at_def)
qed

lemma last_row_major:
  assumes "1 \<le> w" "1 \<le> h"
  shows "last (row_major w h) = \<lparr>pixel_x = w - 1, pixel_y = h - 1\<rparr>"
proof -
  have pos: "0 < nat (w * h)" using assms by simp
  have idx: "(h - 1) * w + (w - 1) = w * h - 1"
    by (simp add: algebra_simps)
  have "last (row_major w h) = row_major w h ! (nat (w * h) - 1)"
    using pos by (simp add: last_conv_nth length_row_major row_major_def)
  also have "\<dots> = coordinate_at w (nat (w * h) - 1)"
    using pos by (simp add: nth_row_major)
  also have "nat (w * h) - 1 = nat ((h - 1) * w + (w - 1))"
    unfolding idx using pos by simp
  also have "coordinate_at w (nat ((h - 1) * w + (w - 1))) = \<lparr>pixel_x = w - 1, pixel_y = h - 1\<rparr>"
    using assms by (intro coordinate_at_cell_index) auto
  finally show ?thesis .
qed

lemma row_major_3_2:
  "row_major 3 2 =
     [\<lparr>pixel_x = 0, pixel_y = 0\<rparr>, \<lparr>pixel_x = 1, pixel_y = 0\<rparr>, \<lparr>pixel_x = 2, pixel_y = 0\<rparr>,
      \<lparr>pixel_x = 0, pixel_y = 1\<rparr>, \<lparr>pixel_x = 1, pixel_y = 1\<rparr>, \<lparr>pixel_x = 2, pixel_y = 1\<rparr>]"
  by code_simp

text \<open>
  Claim C6, as the specification states it for every width and height, fails where
  doubles stop counting.  In a row of width \<open>2^53 + 2\<close> the successor of the pixel
  \<open>(2^53, 0)\<close> is that pixel again, since \<open>2^53 + 1\<close> is rounded to \<open>2^53\<close>: the
  iteration from \<open>(0, 0)\<close> reaches it and never ends.  In the same way, in a grid of
  width 1 and height \<open>2^53 + 2\<close> the successor of \<open>(0, 2^53)\<close> is \<open>(0, 2^53)\<close>.
\<close>

theorem C6_iteration_never_ends:
  "nextPixel \<lparr>pixel_x = 9007199254740992, pixel_y = 0\<rparr> 9007199254740994 1 =
     Some \<lparr>pixel_x = 9007199254740992, pixel_y = 0\<rparr>
   \<and> Image_iterator \<lparr>width = 9007199254740994, height = 1, pixels = js_empty\<rparr> = None
   \<and> nextPixel \<lparr>pixel_x = 0, pixel_y = 9007199254740992\<rparr> 1 9007199254740994 =
     Some \<lparr>pixel_x = 0, pixel_y = 9007199254740992\<rparr>
   \<and> Image_iterator \<lparr>width = 1, height = 9007199254740994, pixels = js_empty\<rparr> = None"
  using for_of_never_ends [of 0] for_of_never_ends_row [of 0]
  by (simp add: nextPixel_stuck nextPixel_stuck_row Image_iterator_def)

text \<open>
  Claim C6, amended.  For a width and a height from 1 to \<open>2^53\<close>, the iteration of an
  image, which starts at \<open>(0, 0)\<close> and steps by \<^verbatim>\<open>nextPixel\<close> until that returns
  \<^verbatim>\<open>undefined\<close>, ends and yields the row-major enumeration of the grid: \<open>width *
  height\<close> coordinates, each once, exactly those of \<open>[0, width) \<times> [0, height)\<close>, the
  coordinate \<open>(x, y)\<close> at position \<open>y * width + x\<close>, the first being \<open>(0, 0)\<close> and the
  last \<open>(width - 1, height - 1)\<close>.
\<close>

theorem C6_iteration_is_row_major:
  assumes "1 \<le> width img" and "width img \<le> 9007199254740992"
      and "1 \<le> height img" and "height img \<le> 9007199254740992"
  shows "\<exists>ps. Image_iterator img = Some ps
    \<and> ps = row_major (width img) (height img)
    \<and> length ps = nat (width img * height img)
    \<and> distinct ps
    \<and> set ps = {p. 0 \<le> pixel_x p \<and> pixel_x p < width img \<and> 0 \<le> pixel_y p \<and> pixel_y p < height img}
    \<and> hd ps = \<lparr>pixel_x = 0, pixel_y = 0\<rparr>
    \<and> last ps = \<lparr>pixel_x = width img - 1, pixel_y = height img - 1\<rparr>
    \<and> (\<forall>x y. 0 \<le> x \<and> x < width img \<and> 0 \<le> y \<and> y < height img \<longrightarrow>
          ps ! nat (y * width img + x) = \<lparr>pixel_x = x, pixel_y = y\<rparr>)"
proof -
  have eq: "Image_iterator img = Some (row_major (width img) (height img))"
    unfolding Image_iterator_def using assms by (rule for_of_row_major)
  have nth: "row_major (width img) (height img) ! nat (y * width img + x) = \<lparr>pixel_x = x, pixel_y = y\<rparr>"
    if "0 \<le> x" "x < width img" "0 \<le> y" "y < height img" for x y
  proof -
    have "nat (y * width img + x) < nat (width img * height img)"
      using cell_index_less [OF that] cell_index_nonneg [OF that(1,2,3)] by simp
    then show ?thesis
      using that by (simp add: nth_row_major coordinate_at_cell_index)
  qed
  show ?thesis
    unfolding eq
    using assms nth
    by (simp add: length_row_major distinct_row_major set_row_major hd_row_major last_row_major)
qed

text \<open>
  For the 3 by 2 grid the iteration is \<open>(0,0), (1,0), (2,0), (0,1), (1,1), (2,1)\<close>.
\<close>

theorem C6_iteration_3_by_2:
  "1 \<le> width \<lparr>width = 3, height = 2, pixels = js_empty\<rparr>
   \<and> width \<lparr>width = 3, height = 2, pixels = js_empty\<rparr> \<le> 9007199254740992
   \<and> 1 \<le> height \<lparr>width = 3, height = 2, pixels = js_empty\<rparr>
   \<and> height \<lparr>width = 3, height = 2, pixels = js_empty\<rparr> \<le> 9007199254740992
   \<and> Image_iterator \<lparr>width = 3, height = 2, pixels = js_empty\<rparr> =
     Some [\<lparr>pixel_x = 0, pixel_y = 0\<rparr>, \<lparr>pixel_x = 1, pixel_y = 0\<rparr>, \<lparr>pixel_x = 2, pixel_y = 0\<rparr>,
      \<lparr>pixel_x = 0, pixel_y = 1\<rparr>, \<lparr>pixel_x = 1, pixel_y = 1\<rparr>, \<lparr>pixel_x = 2, pixel_y = 1\<rparr>]"
  using C6_iteration_is_row_major [of "\<lparr>width = 3, height = 2, pixels = js_empty\<rparr>"] row_major_3_2
  by simp

section \<open>The image constructor, reads and writes\<close>

lemma constructor_loop_None: "constructor_loop w h f None arr = Inr arr"
  by (subst constructor_loop.simps) (simp add: iterator_next_def)

lemma constructor_loop_Some:
  "constructor_loop w h f (Some p) arr =
     (case js_push arr (f p) of
        Inl e \<Rightarrow> Inl e
      | Inr arr' \<Rightarrow> constructor_loop w h f (nextPixel p w h) arr')"
  by (subst constructor_loop.simps) (simp add: iterator_next_def)

lemma constructor_loop_from:
  assumes "0 \<le> x" "x < w" "0 \<le> y" "y < h" "w * h \<le> 4294967295"
  shows "constructor_loop w h f (Some \<lparr>pixel_x = x, pixel_y = y\<rparr>)
             (js_tabulate (nat (y * w + x)) (\<lambda>i. f (coordinate_at w i)))
           = Inr (js_tabulate (nat (w * h)) (\<lambda>i. f (coordinate_at w i)))"
  using assms
proof (induction "nat (w * h) - nat (y * w + x)" arbitrary: x y rule: less_induct)
  case less
  let ?p = "\<lparr>pixel_x = x, pixel_y = y\<rparr>"
  let ?g = "\<lambda>i. f (coordinate_at w i)"
  have w1: "1 \<le> w" and h1: "1 \<le> h"
    using less.prems by simp_all
  have "w * 1 \<le> w * h"
    using w1 h1 by (intro mult_left_mono) simp_all
  then have wb: "w \<le> 9007199254740992"
    using less.prems(5) by simp
  have "1 * h \<le> w * h"
    using w1 h1 by (intro mult_right_mono) simp_all
  then have hb: "h \<le> 9007199254740992"
    using less.prems(5) by simp
  have lt: "y * w + x < w * h"
    using less.prems(1-4) by (rule cell_index_less)
  have ge: "0 \<le> y * w + x"
    using less.prems by (simp add: cell_index_nonneg)
  have here: "coordinate_at w (nat (y * w + x)) = ?p"
    using less.prems by (simp add: coordinate_at_cell_index)
  have idx_lt: "nat (y * w + x) < nat (w * h)"
    using lt ge by simp
  have idx_suc: "nat (y * w + x + 1) = Suc (nat (y * w + x))"
    using ge by simp
  have room: "nat (y * w + x) < 4294967295"
    using lt less.prems(5) by simp
  have decr: "nat (w * h) - nat (y * w + x + 1) < nat (w * h) - nat (y * w + x)"
    using idx_lt by (simp only: idx_suc)
  have push: "js_push (js_tabulate (nat (y * w + x)) ?g) (f ?p)
      = Inr (js_tabulate (nat (y * w + x + 1)) ?g)"
    using js_push_tabulate [OF room, of ?g] by (simp only: here idx_suc)
  have nxt: "nextPixel ?p w h =
     (if x + 1 < w then Some \<lparr>pixel_x = x + 1, pixel_y = y\<rparr>
      else if y + 1 < h then Some \<lparr>pixel_x = 0, pixel_y = y + 1\<rparr> else None)"
    using less.prems(1,2) wb less.prems(3,4) hb by (rule nextPixel_in_grid)
  have rest: "constructor_loop w h f (nextPixel ?p w h) (js_tabulate (nat (y * w + x + 1)) ?g)
      = Inr (js_tabulate (nat (w * h)) ?g)"
  proof (cases "x + 1 < w")
    case True
    then have nxt': "nextPixel ?p w h = Some \<lparr>pixel_x = x + 1, pixel_y = y\<rparr>"
      by (simp add: nxt)
    have eq: "y * w + (x + 1) = y * w + x + 1"
      by simp
    have "constructor_loop w h f (Some \<lparr>pixel_x = x + 1, pixel_y = y\<rparr>)
            (js_tabulate (nat (y * w + (x + 1))) ?g)
        = Inr (js_tabulate (nat (w * h)) ?g)"
    proof (rule less.hyps)
      show "nat (w * h) - nat (y * w + (x + 1)) < nat (w * h) - nat (y * w + x)"
        using decr by (simp only: eq)
    qed (use True less.prems in auto)
    then show ?thesis
      by (simp only: nxt' eq)
  next
    case False
    note nx = False
    then have xw: "x = w - 1" using less.prems by simp
    show ?thesis
    proof (cases "y + 1 < h")
      case True
      then have nxt': "nextPixel ?p w h = Some \<lparr>pixel_x = 0, pixel_y = y + 1\<rparr>"
        using nx by (simp add: nxt)
      have eq: "(y + 1) * w + 0 = y * w + x + 1"
        using xw by (simp add: algebra_simps)
      have "constructor_loop w h f (Some \<lparr>pixel_x = 0, pixel_y = y + 1\<rparr>)
              (js_tabulate (nat ((y + 1) * w + 0)) ?g)
          = Inr (js_tabulate (nat (w * h)) ?g)"
      proof (rule less.hyps)
        show "nat (w * h) - nat ((y + 1) * w + 0) < nat (w * h) - nat (y * w + x)"
          using decr by (simp only: eq)
      qed (use True less.prems in auto)
      then show ?thesis
        by (simp only: nxt' eq)
    next
      case False
      then have yh: "y = h - 1" using less.prems by simp
      have nxt': "nextPixel ?p w h = None"
        using nx False by (simp add: nxt)
      have "(h - 1) * w + (w - 1) + 1 = w * h"
        by (simp add: algebra_simps)
      then have "y * w + x + 1 = w * h"
        by (simp only: xw yh)
      then show ?thesis
        by (simp add: nxt' constructor_loop_None)
    qed
  qed
  show ?case
    by (simp only: constructor_loop_Some [of w h f ?p] push rest sum.case)
qed

lemma new_Image_eq:
  assumes "1 \<le> w" "1 \<le> h" "w * h \<le> 4294967295"
  shows "new_Image w h cc = Inr (row_major_image w h cc)"
proof -
  have "constructor_loop w h (the_colorCalculator cc) (Some \<lparr>pixel_x = 0, pixel_y = 0\<rparr>)
          (js_tabulate (nat (0 * w + 0)) (\<lambda>i. the_colorCalculator cc (coordinate_at w i)))
        = Inr (js_tabulate (nat (w * h)) (\<lambda>i. the_colorCalculator cc (coordinate_at w i)))"
    using assms by (intro constructor_loop_from) simp_all
  then have "constructor_loop w h (the_colorCalculator cc) (Some \<lparr>pixel_x = 0, pixel_y = 0\<rparr>) js_empty
        = Inr (js_tabulate (nat (w * h)) (\<lambda>i. the_colorCalculator cc (coordinate_at w i)))"
    by (simp add: js_tabulate_0)
  then show ?thesis
    by (simp add: new_Image_def Let_def row_major_image_def the_colorCalculator_def)
qed

text \<open>
  An image of \<open>2^32\<close> pixels cannot be constructed: the push that would make the array
  longer than \<open>2^32 - 1\<close> throws.
\<close>

lemma constructor_loop_overflow:
  assumes "0 \<le> x" "x \<le> 4294967295"
  shows "constructor_loop 4294967296 1 f (Some \<lparr>pixel_x = x, pixel_y = 0\<rparr>)
             (js_tabulate (nat x) (\<lambda>i. f (coordinate_at 4294967296 i)))
           = Inl RangeError"
  using assms
proof (induction "nat (4294967295 - x)" arbitrary: x rule: less_induct)
  case less
  let ?g = "\<lambda>i. f (coordinate_at 4294967296 i)"
  show ?case
  proof (cases "x = 4294967295")
    case True
    then show ?thesis
      by (simp add: constructor_loop_Some js_push_full)
  next
    case False
    then have lt: "x < 4294967295" using less.prems by simp
    have here: "coordinate_at 4294967296 (nat x) = \<lparr>pixel_x = x, pixel_y = 0\<rparr>"
      using coordinate_at_cell_index [of x 4294967296 0] less.prems lt by simp
    have room: "nat x < 4294967295"
      using lt by simp
    have suc: "Suc (nat x) = nat (x + 1)"
      using less.prems by simp
    have push: "js_push (js_tabulate (nat x) ?g) (f \<lparr>pixel_x = x, pixel_y = 0\<rparr>)
        = Inr (js_tabulate (nat (x + 1)) ?g)"
      using js_push_tabulate [OF room, of ?g] by (simp only: here suc)
    have "the_int (js_add (num x) (num 1)) = x + 1"
      using less.prems lt by (intro plus_one_exact) simp
    then have nxt: "nextPixel \<lparr>pixel_x = x, pixel_y = 0\<rparr> 4294967296 1
        = Some \<lparr>pixel_x = x + 1, pixel_y = 0\<rparr>"
      using lt by (simp add: nextPixel_def)
    have "constructor_loop 4294967296 1 f (Some \<lparr>pixel_x = x + 1, pixel_y = 0\<rparr>)
             (js_tabulate (nat (x + 1)) ?g) = Inl RangeError"
      using less.prems lt by (intro less.hyps) simp_all
    then show ?thesis
      by (simp only: constructor_loop_Some [of _ _ f "\<lparr>pixel_x = x, pixel_y = 0\<rparr>"] push nxt sum.case)
  qed
qed

lemma new_Image_too_long: "new_Image 4294967296 1 cc = Inl RangeError"
proof -
  have "constructor_loop 4294967296 1 (the_colorCalculator cc) (Some \<lparr>pixel_x = 0, pixel_y = 0\<rparr>)
          (js_tabulate (nat 0) (\<lambda>i. the_colorCalculator cc (coordinate_at 4294967296 i)))
        = Inl RangeError"
    by (intro constructor_loop_overflow) simp_all
  then show ?thesis
    by (simp add: new_Image_def Let_def the_colorCalculator_def js_tabulate_0)
qed

lemma new_Image_0_0:
  "new_Image 0 0 None = Inr \<lparr>width = 0, height = 0, pixels = js_tabulate 1 (\<lambda>_. Colors_White)\<rparr>"
proof -
  have one: "the_int (js_add (num 0) (num 1)) = 1"
    by (intro plus_one_exact [of 0, simplified])
  have nxt: "nextPixel \<lparr>pixel_x = 0, pixel_y = 0\<rparr> 0 0 = None"
    by (simp add: nextPixel_def one)
  have "js_push (js_tabulate 0 (\<lambda>_. Colors_White)) Colors_White = Inr (js_tabulate (Suc 0) (\<lambda>_. Colors_White))"
    by (intro js_push_tabulate) simp
  then have push: "js_push js_empty Colors_White = Inr (js_tabulate 1 (\<lambda>_. Colors_White))"
    by (simp add: js_tabulate_0)
  show ?thesis
    by (simp add: new_Image_def constructor_loop_Some push nxt constructor_loop_None)
qed

lemma flat_index_exact:
  assumes "\<bar>pixel_y p * w\<bar> \<le> 9007199254740992"
      and "\<bar>pixel_y p * w + pixel_x p\<bar> \<le> 9007199254740992"
  shows "flat_index w p = num (pixel_y p * w + pixel_x p)"
  using assms by (simp add: flat_index_def js_mul_int js_add_int)

lemma flat_index_in_bounds:
  assumes "0 \<le> pixel_x p" "pixel_x p < w" "0 \<le> pixel_y p" "pixel_y p < h"
      and "w * h \<le> 9007199254740992"
  shows "flat_index w p = num (pixel_y p * w + pixel_x p)"
proof -
  have lt: "pixel_y p * w + pixel_x p < w * h"
    using assms(1-4) by (rule cell_index_less)
  have y0: "0 \<le> pixel_y p * w"
    using assms by simp
  show ?thesis
    using lt y0 assms by (intro flat_index_exact) simp_all
qed

lemma index_in_num: "index_in (num i) n = (0 \<le> i \<and> i < n)"
  by (simp add: index_in_def num_def)

lemma index_in_cases:
  assumes "index_in k n"
  obtains i where "k = num i" and "0 \<le> i" and "i < n"
proof -
  obtain q where k: "k = Fin q"
    using assms by (cases k) (simp_all add: index_in_def)
  have "rat_of_int \<lfloor>q\<rfloor> = q \<and> 0 \<le> q \<and> q < rat_of_int n"
    using assms unfolding k index_in_def by (simp only: number.case)
  then have q: "rat_of_int \<lfloor>q\<rfloor> = q" "0 \<le> q" "q < rat_of_int n"
    by blast+
  have "k = num \<lfloor>q\<rfloor>"
    unfolding k num_def by (simp only: q(1))
  moreover have "0 \<le> \<lfloor>q\<rfloor>"
    using q(2) by simp
  moreover have "\<lfloor>q\<rfloor> < n"
    using q(3) by (simp add: floor_less_iff)
  ultimately show ?thesis
    by (rule that)
qed

lemma width_updatePixel: "width (updatePixel img p c) = width img"
  and height_updatePixel: "height (updatePixel img p c) = height img"
  by (simp_all add: updatePixel_def Let_def)

lemma pixels_updatePixel:
  "pixels (updatePixel img p c) = js_put (pixels img) (flat_index (width img) p) c"
  by (simp add: updatePixel_def flat_index_def Let_def)

lemma getPixel_eq: "getPixel img p = props (pixels img) (flat_index (width img) p)"
  by (simp add: getPixel_def flat_index_def js_at_def Let_def)

lemma len_updatePixel:
  assumes "index_in (flat_index (width img) p) (int (len (pixels img)))"
  shows "len (pixels (updatePixel img p c)) = len (pixels img)"
proof -
  obtain i where i: "flat_index (width img) p = num i" "0 \<le> i" "i < int (len (pixels img))"
    using assms by (rule index_in_cases)
  have "i < 4294967295"
    using i(3) len_le [of "pixels img"] by simp
  moreover have "\<not> len (pixels img) \<le> nat i"
    using i(2,3) by simp
  ultimately show ?thesis
    using i(1,2) by (simp add: pixels_updatePixel len_js_put array_index_num)
qed

lemma getPixel_updatePixel:
  "getPixel (updatePixel img p c) q =
     (if flat_index (width img) q = flat_index (width img) p then Some c else getPixel img q)"
  by (simp add: getPixel_eq width_updatePixel pixels_updatePixel props_js_put)

lemma updatePixels_invariant:
  assumes "\<forall>(p, c) \<in> set ups. index_in (flat_index (width img) p) (int (len (pixels img)))"
  shows "width (updatePixels img ups) = width img
       \<and> height (updatePixels img ups) = height img
       \<and> len (pixels (updatePixels img ups)) = len (pixels img)"
  using assms
proof (induction ups arbitrary: img)
  case Nil
  then show ?case by (simp add: updatePixels_def)
next
  case (Cons u ups)
  obtain p c where u: "u = (p, c)" by (cases u)
  have step: "updatePixels img (u # ups) = updatePixels (updatePixel img p c) ups"
    by (simp add: updatePixels_def u)
  have here: "index_in (flat_index (width img) p) (int (len (pixels img)))"
    using Cons.prems u by auto
  have keep: "len (pixels (updatePixel img p c)) = len (pixels img)"
    using here by (rule len_updatePixel)
  have "\<forall>(p', c') \<in> set ups. index_in (flat_index (width (updatePixel img p c)) p')
          (int (len (pixels (updatePixel img p c))))"
    using Cons.prems by (simp add: width_updatePixel keep)
  then show ?case
    unfolding step using Cons.IH [of "updatePixel img p c"]
    by (simp add: width_updatePixel height_updatePixel keep)
qed

lemma row_major_image_simps:
  "width (row_major_image w h cc) = w"
  "height (row_major_image w h cc) = h"
  "w * h \<le> 4294967295 \<Longrightarrow> len (pixels (row_major_image w h cc)) = nat (w * h)"
  by (simp_all add: row_major_image_def len_js_tabulate)

lemma getPixel_row_major_image:
  assumes "w * h \<le> 4294967295"
  shows "getPixel (row_major_image w h cc) q =
     (if index_in (flat_index w q) (w * h)
      then Some (the_colorCalculator cc (coordinate_at w (nat (the_int (flat_index w q)))))
      else None)"
proof (cases "index_in (flat_index w q) (w * h)")
  case True
  then obtain i where i: "flat_index w q = num i" "0 \<le> i" "i < w * h"
    by (rule index_in_cases)
  have "i < 4294967295" using i(3) assms by simp
  then show ?thesis
    using True i assms
    by (simp add: getPixel_eq row_major_image_def props_js_tabulate array_index_num the_int_num)
next
  case False
  show ?thesis
  proof (cases "array_index (flat_index w q)")
    case None
    then show ?thesis
      using False by (simp add: getPixel_eq row_major_image_def props_js_tabulate)
  next
    case (Some i)
    then have k: "flat_index w q = num (int i)"
      by (simp add: array_index_Some)
    have "\<not> int i < w * h"
      using False by (simp add: k index_in_num)
    then show ?thesis
      using False Some assms
      by (simp add: getPixel_eq row_major_image_def props_js_tabulate)
  qed
qed

lemma flat_index_3_rounded:
  "flat_index 3 \<lparr>pixel_x = - 27021597764222980, pixel_y = 9007199254740994\<rparr> = num 4"
  by (simp add: flat_index_def num_def fl_eval)

text \<open>
  Claim C3, as the specification states it, fails.  A write is not checked against
  the bounds: on a 2 by 1 image, \<^verbatim>\<open>updatePixel(new Pixel(0, 1), c)\<close> writes at the flat
  index 2, and the sequence then has 3 elements, not 2.  The flat index is computed
  in doubles: on a 3 by 1 image, for \<open>x = - (3 * 2^53 + 4)\<close> and \<open>y = 2^53 + 2\<close> the
  integer \<open>y * 3 + x\<close> is 2, but the product is rounded and the write goes to the
  index 4, after which the sequence has 5 elements.  The iteration always yields
  \<open>(0, 0)\<close> first, so an image of width 0 and height 0 is constructed with one
  element, not none.  And an array has at most \<open>2^32 - 1\<close> elements: the
  construction of an image of width \<open>2^32\<close> and height 1 throws.
\<close>

theorem C3_length_differs_from_width_times_height:
  "new_Image 2 1 None = Inr (row_major_image 2 1 None)
   \<and> len (pixels (row_major_image 2 1 None)) = 2
   \<and> len (pixels (updatePixel (row_major_image 2 1 None) \<lparr>pixel_x = 0, pixel_y = 1\<rparr> Colors_Red)) = 3
   \<and> len (pixels (updatePixel (row_major_image 2 1 None) \<lparr>pixel_x = 0, pixel_y = 1\<rparr> Colors_Red))
        \<noteq> nat (2 * 1)
   \<and> new_Image 3 1 None = Inr (row_major_image 3 1 None)
   \<and> 9007199254740994 * 3 + (- 27021597764222980) = (2::int)
   \<and> len (pixels (updatePixel (row_major_image 3 1 None)
          \<lparr>pixel_x = - 27021597764222980, pixel_y = 9007199254740994\<rparr> Colors_Red)) = 5
   \<and> \<not> isl (new_Image 0 0 None)
   \<and> len (pixels (projr (new_Image 0 0 None))) = 1
   \<and> len (pixels (projr (new_Image 0 0 None))) \<noteq> nat (0 * 0)
   \<and> new_Image 4294967296 1 None = Inl RangeError"
proof -
  have f: "flat_index 2 \<lparr>pixel_x = 0, pixel_y = 1\<rparr> = num 2"
    using flat_index_exact [of "\<lparr>pixel_x = 0, pixel_y = 1\<rparr>" 2] by simp
  have a: "len (pixels (updatePixel (row_major_image 2 1 None) \<lparr>pixel_x = 0, pixel_y = 1\<rparr> Colors_Red)) = 3"
    by (simp add: pixels_updatePixel row_major_image_simps f len_js_put array_index_num)
  have b: "len (pixels (updatePixel (row_major_image 3 1 None)
          \<lparr>pixel_x = - 27021597764222980, pixel_y = 9007199254740994\<rparr> Colors_Red)) = 5"
    by (simp add: pixels_updatePixel row_major_image_simps flat_index_3_rounded len_js_put
        array_index_num)
  show ?thesis
    using a b
    by (simp add: new_Image_eq row_major_image_simps new_Image_0_0 new_Image_too_long len_js_tabulate)
qed

text \<open>
  Claim C3, amended.  For a width \<open>w\<close> and a height \<open>h\<close> of at least 1 with
  \<open>w * h \<le> 2^32 - 1\<close> and any color function, the construction succeeds, the sequence
  has exactly \<open>w * h\<close> elements, the cell of the coordinate \<open>(x, y)\<close> of the grid is the
  element at the flat index \<open>y * w + x\<close>, which the code computes exactly, and holds
  the color function's value there; and the length, the width and the height are
  preserved by every sequence of writes at pixels whose flat index, as the code
  computes it, is an integer of \<open>[0, w * h)\<close>, as that of every in-bounds coordinate
  is.
\<close>

theorem C3_length_is_width_times_height:
  assumes "1 \<le> w" and "1 \<le> h" and "w * h \<le> 4294967295"
  shows "\<exists>img. new_Image w h cc = Inr img
    \<and> width img = w \<and> height img = h
    \<and> len (pixels img) = nat (w * h)
    \<and> (\<forall>x y. 0 \<le> x \<and> x < w \<and> 0 \<le> y \<and> y < h \<longrightarrow>
          flat_index w \<lparr>pixel_x = x, pixel_y = y\<rparr> = num (y * w + x)
          \<and> index_in (flat_index w \<lparr>pixel_x = x, pixel_y = y\<rparr>) (w * h)
          \<and> js_get (pixels img) (y * w + x)
              = Some (the_colorCalculator cc \<lparr>pixel_x = x, pixel_y = y\<rparr>)
          \<and> getPixel img \<lparr>pixel_x = x, pixel_y = y\<rparr>
              = Some (the_colorCalculator cc \<lparr>pixel_x = x, pixel_y = y\<rparr>))
    \<and> (\<forall>ups. (\<forall>(p, c) \<in> set ups. index_in (flat_index w p) (w * h))
          \<longrightarrow> len (pixels (updatePixels img ups)) = nat (w * h)
            \<and> width (updatePixels img ups) = w
            \<and> height (updatePixels img ups) = h)"
proof -
  let ?img = "row_major_image w h cc"
  have new: "new_Image w h cc = Inr ?img"
    using assms by (rule new_Image_eq)
  have wd: "width ?img = w" and ht: "height ?img = h" and ln: "len (pixels ?img) = nat (w * h)"
    using assms(3) by (simp_all add: row_major_image_simps)
  have pos: "0 \<le> w * h"
    using assms by simp
  have cell: "flat_index w \<lparr>pixel_x = x, pixel_y = y\<rparr> = num (y * w + x)
          \<and> index_in (flat_index w \<lparr>pixel_x = x, pixel_y = y\<rparr>) (w * h)
          \<and> js_get (pixels ?img) (y * w + x)
              = Some (the_colorCalculator cc \<lparr>pixel_x = x, pixel_y = y\<rparr>)
          \<and> getPixel ?img \<lparr>pixel_x = x, pixel_y = y\<rparr>
              = Some (the_colorCalculator cc \<lparr>pixel_x = x, pixel_y = y\<rparr>)"
    if b: "0 \<le> x \<and> x < w \<and> 0 \<le> y \<and> y < h" for x y
  proof -
    have lo: "0 \<le> y * w + x" and hi: "y * w + x < w * h"
      using b cell_index_less [of x w y h] by simp_all
    have fi: "flat_index w \<lparr>pixel_x = x, pixel_y = y\<rparr> = num (y * w + x)"
      using flat_index_in_bounds [of "\<lparr>pixel_x = x, pixel_y = y\<rparr>" w h] b assms(3) by simp
    have ii: "index_in (flat_index w \<lparr>pixel_x = x, pixel_y = y\<rparr>) (w * h)"
      using lo hi by (simp add: fi index_in_num)
    have co: "coordinate_at w (nat (y * w + x)) = \<lparr>pixel_x = x, pixel_y = y\<rparr>"
      using b by (intro coordinate_at_cell_index) auto
    have gp: "getPixel ?img \<lparr>pixel_x = x, pixel_y = y\<rparr>
        = Some (the_colorCalculator cc \<lparr>pixel_x = x, pixel_y = y\<rparr>)"
      using ii by (simp add: getPixel_row_major_image [OF assms(3)] fi the_int_num co)
    then have "js_get (pixels ?img) (y * w + x)
        = Some (the_colorCalculator cc \<lparr>pixel_x = x, pixel_y = y\<rparr>)"
      by (simp add: getPixel_eq wd fi js_get_def js_at_def)
    then show ?thesis
      using fi ii gp by simp
  qed
  have upd: "len (pixels (updatePixels ?img ups)) = nat (w * h)
            \<and> width (updatePixels ?img ups) = w
            \<and> height (updatePixels ?img ups) = h"
    if h: "\<forall>(p, c) \<in> set ups. index_in (flat_index w p) (w * h)" for ups
  proof -
    have "\<forall>(p, c) \<in> set ups. index_in (flat_index (width ?img) p) (int (len (pixels ?img)))"
      using h pos by (simp add: wd ln)
    from updatePixels_invariant [OF this]
    show ?thesis
      by (simp add: wd ht ln)
  qed
  show ?thesis
    using new wd ht ln cell upd by blast
qed

text \<open>The 3 by 2 image of the tests: 6 elements, before and after two writes.\<close>

theorem C3_grid_3_by_2:
  "(1::int) \<le> 3 \<and> (1::int) \<le> 2 \<and> (3::int) * 2 \<le> 4294967295
   \<and> (\<exists>img. new_Image 3 2 None = Inr img
        \<and> len (pixels img) = 6
        \<and> getPixel img \<lparr>pixel_x = 1, pixel_y = 1\<rparr> = Some Colors_White
        \<and> len (pixels (updatePixels img
             [(\<lparr>pixel_x = 1, pixel_y = 1\<rparr>, Colors_Red), (\<lparr>pixel_x = 0, pixel_y = 1\<rparr>, Colors_Blue)])) = 6)"
proof -
  have a: "(1::int) \<le> 3" and b: "(1::int) \<le> 2" and c: "(3::int) * 2 \<le> 4294967295"
    by simp_all
  from C3_length_is_width_times_height [OF a b c, of None]
  obtain img where img: "new_Image 3 2 None = Inr img" "len (pixels img) = nat (3 * 2)"
    and cell: "\<forall>x y. 0 \<le> x \<and> x < 3 \<and> 0 \<le> y \<and> y < 2 \<longrightarrow>
          flat_index 3 \<lparr>pixel_x = x, pixel_y = y\<rparr> = num (y * 3 + x)
          \<and> index_in (flat_index 3 \<lparr>pixel_x = x, pixel_y = y\<rparr>) (3 * 2)
          \<and> js_get (pixels img) (y * 3 + x)
              = Some (the_colorCalculator None \<lparr>pixel_x = x, pixel_y = y\<rparr>)
          \<and> getPixel img \<lparr>pixel_x = x, pixel_y = y\<rparr>
              = Some (the_colorCalculator None \<lparr>pixel_x = x, pixel_y = y\<rparr>)"
    and upd: "\<forall>ups. (\<forall>(p, c) \<in> set ups. index_in (flat_index 3 p) (3 * 2))
          \<longrightarrow> len (pixels (updatePixels img ups)) = nat (3 * 2)
            \<and> width (updatePixels img ups) = 3
            \<and> height (updatePixels img ups) = 2"
    by blast
  have g: "getPixel img \<lparr>pixel_x = 1, pixel_y = 1\<rparr> = Some Colors_White"
    using cell [rule_format, of 1 1] by (simp add: the_colorCalculator_def)
  have i1: "index_in (flat_index 3 \<lparr>pixel_x = 1, pixel_y = 1\<rparr>) (3 * 2)"
    using cell [rule_format, of 1 1] by (simp add: index_in_num)
  have i2: "index_in (flat_index 3 \<lparr>pixel_x = 0, pixel_y = 1\<rparr>) (3 * 2)"
    using cell [rule_format, of 0 1] by (simp add: index_in_num)
  have "\<forall>(p, c) \<in> set [(\<lparr>pixel_x = 1, pixel_y = 1\<rparr>, Colors_Red), (\<lparr>pixel_x = 0, pixel_y = 1\<rparr>, Colors_Blue)].
          index_in (flat_index 3 p) (3 * 2)"
    using i1 i2 by simp
  then have u: "len (pixels (updatePixels img
             [(\<lparr>pixel_x = 1, pixel_y = 1\<rparr>, Colors_Red), (\<lparr>pixel_x = 0, pixel_y = 1\<rparr>, Colors_Blue)])) = 6"
    using upd by (simp del: set_simps)
  show ?thesis
    using img g u by simp
qed

section \<open>Pixel.transform\<close>

text \<open>
  Claim C8.  \<^verbatim>\<open>transform(fx, fy)\<close> returns the pixel \<open>(fx x, fy y)\<close>, and
  \<^verbatim>\<open>transform(fx)\<close>, with the second function omitted, returns \<open>(fx x, fx y)\<close>: the
  function given for \<open>x\<close> is applied to \<open>y\<close> as well.
\<close>

theorem C8_transform:
  "transform p fx (Some fy) = \<lparr>pixel_x = fx (pixel_x p), pixel_y = fy (pixel_y p)\<rparr>
   \<and> transform p fx None = \<lparr>pixel_x = fx (pixel_x p), pixel_y = fx (pixel_y p)\<rparr>"
  by (simp add: transform_def)

section \<open>Unchecked reads and writes\<close>

lemma flat_index_rounded:
  "flat_index 1 \<lparr>pixel_x = 1, pixel_y = 9007199254740992\<rparr> = num 9007199254740992"
  "flat_index 1 \<lparr>pixel_x = 0, pixel_y = 9007199254740992\<rparr> = num 9007199254740992"
  by (simp_all add: flat_index_def js_mul_int) (simp_all add: num_def fl_eval)

text \<open>
  Claim C9, as stated, fails: a read at a flat index outside the sequence can return
  a color.  On a 1 by 1 image, \<^verbatim>\<open>updatePixel(new Pixel(-1, 0), red)\<close> writes under the
  key \<open>-1\<close>, which is no array index: the sequence keeps its single element, and
  \<^verbatim>\<open>getPixel(new Pixel(-1, 0))\<close> then returns red, not \<^verbatim>\<open>undefined\<close>.  And the key
  is the flat index computed in doubles: after a write at \<open>(1, 2^53)\<close> a read at
  \<open>(0, 2^53)\<close> returns red as well, both sums being rounded to \<open>2^53\<close>.
\<close>

theorem C9_get_after_negative_set:
  "new_Image 1 1 None = Inr (row_major_image 1 1 None)
   \<and> flat_index (width (row_major_image 1 1 None)) \<lparr>pixel_x = - 1, pixel_y = 0\<rparr> = num (- 1)
   \<and> len (pixels (updatePixel (row_major_image 1 1 None) \<lparr>pixel_x = - 1, pixel_y = 0\<rparr> Colors_Red)) = 1
   \<and> getPixel (updatePixel (row_major_image 1 1 None) \<lparr>pixel_x = - 1, pixel_y = 0\<rparr> Colors_Red)
        \<lparr>pixel_x = - 1, pixel_y = 0\<rparr> = Some Colors_Red
   \<and> 9007199254740992 * 1 + 1 \<noteq> (9007199254740992 * 1 + 0 :: int)
   \<and> getPixel (updatePixel (row_major_image 1 1 None)
          \<lparr>pixel_x = 1, pixel_y = 9007199254740992\<rparr> Colors_Red)
        \<lparr>pixel_x = 0, pixel_y = 9007199254740992\<rparr> = Some Colors_Red"
proof -
  have f: "flat_index 1 \<lparr>pixel_x = - 1, pixel_y = 0\<rparr> = num (- 1)"
    using flat_index_exact [of "\<lparr>pixel_x = - 1, pixel_y = 0\<rparr>" 1] by simp
  show ?thesis
    by (simp add: new_Image_eq row_major_image_simps f getPixel_updatePixel
        pixels_updatePixel len_js_put array_index_num flat_index_rounded)
qed

lemma updatePixels_snoc:
  "updatePixels img (ups @ [(p, c)]) = updatePixel (updatePixels img ups) p c"
  by (simp add: updatePixels_def)

lemma width_updatePixels: "width (updatePixels img ups) = width img"
  by (induction ups rule: rev_induct)
     (auto simp: updatePixels_def width_updatePixel)

lemma getPixel_updatePixels_None:
  "(getPixel (updatePixels img ups) q = None) =
     (getPixel img q = None
      \<and> (\<forall>(p, c) \<in> set ups. flat_index (width img) p \<noteq> flat_index (width img) q))"
proof (induction ups rule: rev_induct)
  case Nil
  then show ?case by (simp add: updatePixels_def)
next
  case (snoc u ups)
  obtain p c where u: "u = (p, c)" by (cases u)
  show ?case
    unfolding u updatePixels_snoc getPixel_updatePixel width_updatePixels
    using snoc.IH by auto
qed

text \<open>
  Claim C9, amended.  \<^verbatim>\<open>getPixel\<close> and \<^verbatim>\<open>updatePixel\<close> have no \<^verbatim>\<open>throw\<close> and
  go to the array by a read and a write, which never throw, whatever the coordinate:
  a write stores the color under the flat index as the code computes it, the double
  \<^verbatim>\<open>y * width + x\<close>, and a read returns what is stored under that key.  After a
  write at \<open>p\<close> a read at \<open>q\<close> gives the written color when the flat index computed
  for \<open>q\<close> is that computed for \<open>p\<close>, and what it gave before otherwise.  On an image
  just constructed (width and height at least 1, at most \<open>2^32 - 1\<close> pixels) a read
  gives the cell's color when the computed flat index is an integer of \<open>[0, w * h)\<close>,
  and no value otherwise.  After any writes, a read gives no value exactly when the
  computed flat index is outside \<open>[0, w * h)\<close> and no write was at that flat index.
  The computed flat index is \<open>y * w + x\<close> itself whenever \<open>y * w\<close> and \<open>y * w + x\<close> are
  at most \<open>2^53\<close> in absolute value.
\<close>

theorem C9_get_returns_what_was_set:
  assumes "1 \<le> w" and "1 \<le> h" and "w * h \<le> 4294967295"
  shows "getPixel (updatePixel img p c) q =
       (if flat_index (width img) q = flat_index (width img) p then Some c
        else getPixel img q)
    \<and> (\<exists>g. new_Image w h cc = Inr g
         \<and> getPixel g q =
             (if index_in (flat_index w q) (w * h)
              then Some (the_colorCalculator cc (coordinate_at w (nat (the_int (flat_index w q)))))
              else None)
         \<and> (getPixel (updatePixels g ups) q = None) =
             (\<not> index_in (flat_index w q) (w * h)
              \<and> (\<forall>(p, c) \<in> set ups. flat_index w p \<noteq> flat_index w q)))
    \<and> (\<bar>pixel_y q * w\<bar> \<le> 9007199254740992 \<and> \<bar>pixel_y q * w + pixel_x q\<bar> \<le> 9007199254740992
         \<longrightarrow> flat_index w q = num (pixel_y q * w + pixel_x q))"
proof (intro conjI)
  show "getPixel (updatePixel img p c) q =
       (if flat_index (width img) q = flat_index (width img) p then Some c
        else getPixel img q)"
    by (rule getPixel_updatePixel)
  let ?g = "row_major_image w h cc"
  have new: "new_Image w h cc = Inr ?g"
    using assms by (rule new_Image_eq)
  have rd: "getPixel ?g q =
             (if index_in (flat_index w q) (w * h)
              then Some (the_colorCalculator cc (coordinate_at w (nat (the_int (flat_index w q)))))
              else None)"
    using assms(3) by (rule getPixel_row_major_image)
  have none: "(getPixel ?g q = None) = (\<not> index_in (flat_index w q) (w * h))"
    by (cases "index_in (flat_index w q) (w * h)") (simp_all only: rd if_True if_False option.simps simp_thms)
  have "(getPixel (updatePixels ?g ups) q = None) =
             (getPixel ?g q = None
              \<and> (\<forall>(p, c) \<in> set ups. flat_index w p \<noteq> flat_index w q))"
    by (simp only: getPixel_updatePixels_None row_major_image_simps)
  then have "(getPixel (updatePixels ?g ups) q = None) =
             (\<not> index_in (flat_index w q) (w * h)
              \<and> (\<forall>(p, c) \<in> set ups. flat_index w p \<noteq> flat_index w q))"
    by (simp only: none)
  with new rd have "new_Image w h cc = Inr ?g
         \<and> getPixel ?g q =
             (if index_in (flat_index w q) (w * h)
              then Some (the_colorCalculator cc (coordinate_at w (nat (the_int (flat_index w q)))))
              else None)
         \<and> (getPixel (updatePixels ?g ups) q = None) =
             (\<not> index_in (flat_index w q) (w * h)
              \<and> (\<forall>(p, c) \<in> set ups. flat_index w p \<noteq> flat_index w q))"
    by (intro conjI)
  then show "\<exists>g. new_Image w h cc = Inr g
         \<and> getPixel g q =
             (if index_in (flat_index w q) (w * h)
              then Some (the_colorCalculator cc (coordinate_at w (nat (the_int (flat_index w q)))))
              else None)
         \<and> (getPixel (updatePixels g ups) q = None) =
             (\<not> index_in (flat_index w q) (w * h)
              \<and> (\<forall>(p, c) \<in> set ups. flat_index w p \<noteq> flat_index w q))"
    by (rule exI)
  show "\<bar>pixel_y q * w\<bar> \<le> 9007199254740992 \<and> \<bar>pixel_y q * w + pixel_x q\<bar> \<le> 9007199254740992
         \<longrightarrow> flat_index w q = num (pixel_y q * w + pixel_x q)"
  proof
    assume "\<bar>pixel_y q * w\<bar> \<le> 9007199254740992 \<and> \<bar>pixel_y q * w + pixel_x q\<bar> \<le> 9007199254740992"
    then show "flat_index w q = num (pixel_y q * w + pixel_x q)"
      using flat_index_exact [of q w] by simp
  qed
qed

text \<open>
  Reads of a 1 by 1 image, before and after a write at \<open>(-1, 0)\<close>; and a read at
  \<open>(0, 2^53)\<close> after a write at \<open>(1, 2^53)\<close>, which have the same flat index in
  doubles.
\<close>

theorem C9_reads_of_a_1_by_1_image:
  "(1::int) \<le> 1 \<and> (1::int) * 1 \<le> 4294967295
   \<and> new_Image 1 1 None = Inr (row_major_image 1 1 None)
   \<and> getPixel (row_major_image 1 1 None) \<lparr>pixel_x = 0, pixel_y = 0\<rparr> = Some Colors_White
   \<and> getPixel (row_major_image 1 1 None) \<lparr>pixel_x = 5, pixel_y = 5\<rparr> = None
   \<and> getPixel (updatePixels (row_major_image 1 1 None) [(\<lparr>pixel_x = - 1, pixel_y = 0\<rparr>, Colors_Red)])
        \<lparr>pixel_x = 5, pixel_y = 5\<rparr> = None
   \<and> getPixel (updatePixels (row_major_image 1 1 None) [(\<lparr>pixel_x = - 1, pixel_y = 0\<rparr>, Colors_Red)])
        \<lparr>pixel_x = - 1, pixel_y = 0\<rparr> \<noteq> None
   \<and> getPixel (updatePixel (row_major_image 1 1 None)
          \<lparr>pixel_x = 1, pixel_y = 9007199254740992\<rparr> Colors_Red)
        \<lparr>pixel_x = 0, pixel_y = 9007199254740992\<rparr> = Some Colors_Red"
proof -
  let ?g = "row_major_image 1 1 None"
  have a: "(1::int) \<le> 1" and b: "(1::int) * 1 \<le> 4294967295" by simp_all
  have new: "new_Image 1 1 None = Inr ?g"
    using a a b by (rule new_Image_eq)
  note t = C9_get_returns_what_was_set [OF a a b, where cc = None and img = ?g and c = Colors_Red]
  have f0: "flat_index 1 \<lparr>pixel_x = 0, pixel_y = 0\<rparr> = num 0"
    using flat_index_exact [of "\<lparr>pixel_x = 0, pixel_y = 0\<rparr>" 1] by simp
  have f5: "flat_index 1 \<lparr>pixel_x = 5, pixel_y = 5\<rparr> = num 10"
    using flat_index_exact [of "\<lparr>pixel_x = 5, pixel_y = 5\<rparr>" 1] by simp
  have fn: "flat_index 1 \<lparr>pixel_x = - 1, pixel_y = 0\<rparr> = num (- 1)"
    using flat_index_exact [of "\<lparr>pixel_x = - 1, pixel_y = 0\<rparr>" 1] by simp
  have g0: "getPixel ?g \<lparr>pixel_x = 0, pixel_y = 0\<rparr> = Some Colors_White"
    using t [where q = "\<lparr>pixel_x = 0, pixel_y = 0\<rparr>" and ups = "[]"
        and p = "\<lparr>pixel_x = 0, pixel_y = 0\<rparr>"] new
    by (simp add: f0 index_in_num the_int_num coordinate_at_def the_colorCalculator_def)
  have g5: "getPixel ?g \<lparr>pixel_x = 5, pixel_y = 5\<rparr> = None"
    using t [where q = "\<lparr>pixel_x = 5, pixel_y = 5\<rparr>" and ups = "[]"
        and p = "\<lparr>pixel_x = 0, pixel_y = 0\<rparr>"] new
    by (simp add: f5 index_in_num)
  have u5: "getPixel (updatePixels ?g [(\<lparr>pixel_x = - 1, pixel_y = 0\<rparr>, Colors_Red)])
        \<lparr>pixel_x = 5, pixel_y = 5\<rparr> = None"
    using t [where q = "\<lparr>pixel_x = 5, pixel_y = 5\<rparr>"
        and ups = "[(\<lparr>pixel_x = - 1, pixel_y = 0\<rparr>, Colors_Red)]"
        and p = "\<lparr>pixel_x = 0, pixel_y = 0\<rparr>"] new
    by (simp add: f5 fn index_in_num num_eq_iff)
  have un: "getPixel (updatePixels ?g [(\<lparr>pixel_x = - 1, pixel_y = 0\<rparr>, Colors_Red)])
        \<lparr>pixel_x = - 1, pixel_y = 0\<rparr> \<noteq> None"
    using t [where q = "\<lparr>pixel_x = - 1, pixel_y = 0\<rparr>"
        and ups = "[(\<lparr>pixel_x = - 1, pixel_y = 0\<rparr>, Colors_Red)]"
        and p = "\<lparr>pixel_x = 0, pixel_y = 0\<rparr>"] new
    by (simp add: fn index_in_num)
  have big: "getPixel (updatePixel ?g \<lparr>pixel_x = 1, pixel_y = 9007199254740992\<rparr> Colors_Red)
        \<lparr>pixel_x = 0, pixel_y = 9007199254740992\<rparr> = Some Colors_Red"
    using t [where q = "\<lparr>pixel_x = 0, pixel_y = 9007199254740992\<rparr>" and ups = "[]"
        and p = "\<lparr>pixel_x = 1, pixel_y = 9007199254740992\<rparr>"]
    by (simp add: row_major_image_simps flat_index_rounded)
  show ?thesis using new g0 g5 u5 un big by simp
qed

lemma cell_index_inj:
  fixes w :: int
  assumes "0 \<le> x" "x < w" "0 \<le> y" "0 \<le> x'" "x' < w" "0 \<le> y'"
      and "y * w + x = y' * w + x'"
  shows "x = x' \<and> y = y'"
proof -
  have "\<lparr>pixel_x = x, pixel_y = y\<rparr> = coordinate_at w (nat (y * w + x))"
    using assms(1-3) by (simp only: coordinate_at_cell_index)
  also have "\<dots> = coordinate_at w (nat (y' * w + x'))"
    by (simp only: assms(7))
  also have "\<dots> = \<lparr>pixel_x = x', pixel_y = y'\<rparr>"
    using assms(4-6) by (simp only: coordinate_at_cell_index)
  finally show ?thesis by simp
qed

text \<open>
  Claim C10.  On an image whose sequence has \<open>width * height\<close> elements, a write at an
  in-bounds coordinate \<open>(x, y)\<close> changes the element at the flat index \<open>y * width + x\<close>
  and nothing else: the width, the height and the length stay, what is stored under
  every other key stays, and so a read at any other in-bounds coordinate gives what it
  gave before.
\<close>

theorem C10_updatePixel_changes_one_cell:
  assumes "checkBounds img p = Inr ()" and "int (len (pixels img)) = width img * height img"
  shows "width (updatePixel img p c) = width img
    \<and> height (updatePixel img p c) = height img
    \<and> len (pixels (updatePixel img p c)) = len (pixels img)
    \<and> js_get (pixels (updatePixel img p c)) (pixel_y p * width img + pixel_x p) = Some c
    \<and> (\<forall>j. j \<noteq> pixel_y p * width img + pixel_x p \<longrightarrow>
          js_get (pixels (updatePixel img p c)) j = js_get (pixels img) j)
    \<and> (\<forall>q. checkBounds img q = Inr () \<and> q \<noteq> p \<longrightarrow>
          getPixel (updatePixel img p c) q = getPixel img q)"
proof -
  have b: "0 \<le> pixel_x p" "pixel_x p < width img" "0 \<le> pixel_y p" "pixel_y p < height img"
    using assms(1) by (simp_all add: checkBounds_def split: if_splits)
  have lo: "0 \<le> pixel_y p * width img + pixel_x p"
    using b by simp
  have hi: "pixel_y p * width img + pixel_x p < int (len (pixels img))"
    using cell_index_less [OF b] assms(2) by simp
  have size: "width img * height img \<le> 9007199254740992"
    using len_le [of "pixels img"] assms(2) by simp
  have fp: "flat_index (width img) p = num (pixel_y p * width img + pixel_x p)"
    using b size by (rule flat_index_in_bounds)
  have other: "getPixel (updatePixel img p c) q = getPixel img q"
    if "checkBounds img q = Inr ()" "q \<noteq> p" for q
  proof -
    have bq: "0 \<le> pixel_x q" "pixel_x q < width img" "0 \<le> pixel_y q" "pixel_y q < height img"
      using that(1) by (simp_all add: checkBounds_def split: if_splits)
    have fq: "flat_index (width img) q = num (pixel_y q * width img + pixel_x q)"
      using bq size by (rule flat_index_in_bounds)
    have "pixel_y q * width img + pixel_x q \<noteq> pixel_y p * width img + pixel_x p"
    proof
      assume "pixel_y q * width img + pixel_x q = pixel_y p * width img + pixel_x p"
      then have "pixel_x q = pixel_x p \<and> pixel_y q = pixel_y p"
        using bq b by (intro cell_index_inj) auto
      then have "q = p" by simp
      then show False using that(2) by simp
    qed
    then show ?thesis by (simp add: getPixel_updatePixel fp fq num_eq_iff)
  qed
  have here: "js_get (pixels (updatePixel img p c)) (pixel_y p * width img + pixel_x p) = Some c"
    by (simp add: pixels_updatePixel fp js_get_def js_at_def props_js_put)
  have rest: "js_get (pixels (updatePixel img p c)) j = js_get (pixels img) j"
    if "j \<noteq> pixel_y p * width img + pixel_x p" for j
    using that by (simp add: pixels_updatePixel fp js_get_def js_at_def props_js_put num_eq_iff)
  have keep: "len (pixels (updatePixel img p c)) = len (pixels img)"
    using lo hi by (intro len_updatePixel) (simp add: fp index_in_num)
  show ?thesis
  proof (intro conjI allI impI)
    show "width (updatePixel img p c) = width img"
      by (rule width_updatePixel)
    show "height (updatePixel img p c) = height img"
      by (rule height_updatePixel)
    show "len (pixels (updatePixel img p c)) = len (pixels img)"
      by (rule keep)
    show "js_get (pixels (updatePixel img p c)) (pixel_y p * width img + pixel_x p) = Some c"
      by (rule here)
    show "js_get (pixels (updatePixel img p c)) j = js_get (pixels img) j"
      if "j \<noteq> pixel_y p * width img + pixel_x p" for j
      using that by (rule rest)
    show "getPixel (updatePixel img p c) q = getPixel img q"
      if "checkBounds img q = Inr () \<and> q \<noteq> p" for q
      using that other by blast
  qed
qed

text \<open>A write at \<open>(1, 1)\<close> of the white 3 by 2 image leaves \<open>(0, 1)\<close> white.\<close>

theorem C10_update_of_a_3_by_2_image:
  "new_Image 3 2 None = Inr (row_major_image 3 2 None)
   \<and> checkBounds (row_major_image 3 2 None) \<lparr>pixel_x = 1, pixel_y = 1\<rparr> = Inr ()
   \<and> int (len (pixels (row_major_image 3 2 None)))
       = width (row_major_image 3 2 None) * height (row_major_image 3 2 None)
   \<and> len (pixels (updatePixel (row_major_image 3 2 None) \<lparr>pixel_x = 1, pixel_y = 1\<rparr> Colors_Red)) = 6
   \<and> getPixel (updatePixel (row_major_image 3 2 None) \<lparr>pixel_x = 1, pixel_y = 1\<rparr> Colors_Red)
        \<lparr>pixel_x = 0, pixel_y = 1\<rparr> = Some Colors_White"
proof -
  let ?g = "row_major_image 3 2 None"
  have new: "new_Image 3 2 None = Inr ?g"
    by (intro new_Image_eq) simp_all
  have cb: "checkBounds ?g \<lparr>pixel_x = 1, pixel_y = 1\<rparr> = Inr ()"
    and cq: "checkBounds ?g \<lparr>pixel_x = 0, pixel_y = 1\<rparr> = Inr ()"
    by (simp_all add: checkBounds_def row_major_image_simps)
  have ln: "int (len (pixels ?g)) = width ?g * height ?g"
    by (simp add: row_major_image_simps)
  have f: "flat_index 3 \<lparr>pixel_x = 0, pixel_y = 1\<rparr> = num 3"
    using flat_index_exact [of "\<lparr>pixel_x = 0, pixel_y = 1\<rparr>" 3] by simp
  have old: "getPixel ?g \<lparr>pixel_x = 0, pixel_y = 1\<rparr> = Some Colors_White"
    by (simp add: getPixel_row_major_image f index_in_num the_colorCalculator_def)
  note t = C10_updatePixel_changes_one_cell [OF cb ln, of Colors_Red]
  have "len (pixels (updatePixel ?g \<lparr>pixel_x = 1, pixel_y = 1\<rparr> Colors_Red)) = 6"
    using t by (simp add: row_major_image_simps)
  moreover have "getPixel (updatePixel ?g \<lparr>pixel_x = 1, pixel_y = 1\<rparr> Colors_Red)
        \<lparr>pixel_x = 0, pixel_y = 1\<rparr> = Some Colors_White"
    using t cq old by simp
  ultimately show ?thesis using new cb ln by simp
qed

section \<open>The byte buffer\<close>

lemma length_uint8_store: "length (uint8_store res i v) = length res"
  by (simp add: uint8_store_def)

lemma nth_uint8_store:
  "m < length res \<Longrightarrow> uint8_store res i v ! m = (if m = i then ToUint8 v else res ! m)"
  by (simp add: uint8_store_def nth_list_update)

lemma length_store_color: "length (store_color c k res) = length res"
  by (simp add: store_color_def Let_def length_uint8_store)

lemma nth_store_color:
  assumes "m < length res"
  shows "store_color c k res ! m = (if m div 4 = k then ToUint8 (channel (m mod 4) c) else res ! m)"
proof (cases "m div 4 = k")
  case False
  then have "m \<noteq> k * 4" "m \<noteq> k * 4 + 1" "m \<noteq> k * 4 + 2" "m \<noteq> k * 4 + 3"
    by auto
  then show ?thesis
    using assms False
    by (simp add: store_color_def Let_def nth_uint8_store length_uint8_store)
next
  case True
  then have m: "m = k * 4 + m mod 4" by auto
  have "m mod 4 = 0 \<or> m mod 4 = 1 \<or> m mod 4 = 2 \<or> m mod 4 = 3" by arith
  then show ?thesis
  proof (elim disjE)
    assume j: "m mod 4 = 0"
    then have "m = k * 4" using m by simp
    then show ?thesis using assms True j
      by (simp add: store_color_def Let_def nth_uint8_store length_uint8_store channel_def)
  next
    assume j: "m mod 4 = 1"
    then have "m = k * 4 + 1" using m by simp
    then show ?thesis using assms True j
      by (simp add: store_color_def Let_def nth_uint8_store length_uint8_store channel_def)
  next
    assume j: "m mod 4 = 2"
    then have "m = k * 4 + 2" using m by simp
    then show ?thesis using assms True j
      by (simp add: store_color_def Let_def nth_uint8_store length_uint8_store channel_def)
  next
    assume j: "m mod 4 = 3"
    then have "m = k * 4 + 3" using m by simp
    then show ?thesis using assms True j
      by (simp add: store_color_def Let_def nth_uint8_store length_uint8_store channel_def)
  qed
qed

lemma forEach_store_color:
  "length (foldl (\<lambda>s k. case js_get arr (int k) of None \<Rightarrow> s | Some v \<Rightarrow> store_color v k s) s [0..<n])
     = length s
   \<and> (\<forall>m < length s.
        foldl (\<lambda>s k. case js_get arr (int k) of None \<Rightarrow> s | Some v \<Rightarrow> store_color v k s) s [0..<n] ! m =
        (if m div 4 < n then
           (case js_get arr (int (m div 4)) of None \<Rightarrow> s ! m
            | Some c \<Rightarrow> ToUint8 (channel (m mod 4) c))
         else s ! m))"
proof (induction n)
  case 0
  then show ?case by simp
next
  case (Suc n)
  show ?case
  proof (cases "js_get arr (int n)")
    case None
    then show ?thesis
      using Suc by (auto simp: less_Suc_eq)
  next
    case (Some c)
    then show ?thesis
      using Suc by (auto simp: less_Suc_eq length_store_color nth_store_color)
  qed
qed

lemma ToUint8_in_range:
  assumes "in_range v"
  shows "num (uint (ToUint8 v)) = v"
proof -
  obtain q where v: "v = Fin q" and q: "0 \<le> q" "q \<le> 255" "rat_of_int \<lfloor>q\<rfloor> = q"
    using assms by (cases v) (auto simp: in_range_def)
  have lo: "0 \<le> \<lfloor>q\<rfloor>" using q(1) by simp
  have hi: "\<lfloor>q\<rfloor> < 256" using q(2) by (simp add: floor_less_iff)
  have "uint (word_of_int \<lfloor>q\<rfloor> :: 8 word) = \<lfloor>q\<rfloor> mod 256"
    by (simp add: uint_word_of_int)
  also have "\<dots> = \<lfloor>q\<rfloor>" using lo hi by simp
  finally show ?thesis
    using q by (simp add: v ToUint8_def trunc_def num_def)
qed

lemma trunc_of_int: "trunc (rat_of_int n) = n"
  by (simp add: trunc_def)

lemma new_Uint8Array_num:
  "0 \<le> n \<Longrightarrow> n \<le> 9007199254740991 \<Longrightarrow> new_Uint8Array (num n) = Inr (replicate (nat n) 0)"
  by (simp add: new_Uint8Array_def num_def trunc_of_int)

lemma toUint8Array_bytes:
  assumes "0 \<le> width img" and "0 \<le> height img"
      and "int (len (pixels img)) = width img * height img"
  shows "toUint8Array img =
      Inr (js_forEach store_color (pixels img) (replicate (nat (width img * height img * 4)) 0))"
proof -
  have nonneg: "0 \<le> width img * height img"
    using assms(1,2) by simp
  have size: "width img * height img \<le> 4294967295"
    using len_le [of "pixels img"] assms(3) by simp
  have "js_mul (num (width img)) (num (height img)) = num (width img * height img)"
    using nonneg size by (intro js_mul_int) simp
  moreover have "js_mul (num (width img * height img)) (num 4) = num (width img * height img * 4)"
  proof (rule js_mul_int)
    show "\<bar>width img * height img * 4\<bar> \<le> 9007199254740992"
      using nonneg size by linarith
  qed
  moreover have "new_Uint8Array (num (width img * height img * 4))
      = Inr (replicate (nat (width img * height img * 4)) 0)"
  proof (rule new_Uint8Array_num)
    show "0 \<le> width img * height img * 4"
      using nonneg by linarith
    show "width img * height img * 4 \<le> 9007199254740991"
      using size by linarith
  qed
  ultimately show ?thesis
    by (simp add: toUint8Array_def)
qed

lemma toUint8Array_cell:
  assumes wh: "0 \<le> width img" "0 \<le> height img"
      and ln: "int (len (pixels img)) = width img * height img"
      and p: "checkBounds img p = Inr ()" and c: "getPixel img p = Some c"
      and j: "j < 4"
  shows "js_forEach store_color (pixels img) (replicate (nat (width img * height img * 4)) 0)
           ! (4 * nat (pixel_y p * width img + pixel_x p) + j) = ToUint8 (channel j c)"
proof -
  let ?i = "nat (pixel_y p * width img + pixel_x p)"
  let ?s = "replicate (nat (width img * height img * 4)) (0 :: 8 word)"
  have b: "0 \<le> pixel_x p" "pixel_x p < width img" "0 \<le> pixel_y p" "pixel_y p < height img"
    using p by (simp_all add: checkBounds_def split: if_splits)
  have lo: "0 \<le> pixel_y p * width img + pixel_x p"
    using b by simp
  have hi: "pixel_y p * width img + pixel_x p < width img * height img"
    using b by (rule cell_index_less)
  have size: "width img * height img \<le> 9007199254740992"
    using len_le [of "pixels img"] ln by simp
  have fp: "flat_index (width img) p = num (pixel_y p * width img + pixel_x p)"
    using b size by (rule flat_index_in_bounds)
  have i_len: "?i < len (pixels img)"
    using lo hi ln by simp
  have ii: "int ?i = pixel_y p * width img + pixel_x p"
    using lo by simp
  have "4 * ?i + j < nat (width img * height img * 4)"
    using ii hi j by arith
  then have m_len: "4 * ?i + j < length ?s"
    by simp
  have dv: "(4 * ?i + j) div 4 = ?i" and md: "(4 * ?i + j) mod 4 = j"
    using j by simp_all
  have stored: "js_get (pixels img) (int ?i) = Some c"
    using c unfolding ii by (simp add: getPixel_eq fp js_get_def js_at_def)
  from forEach_store_color [where arr = "pixels img" and n = "len (pixels img)" and s = ?s]
  have "js_forEach store_color (pixels img) ?s ! (4 * ?i + j) =
        (if (4 * ?i + j) div 4 < len (pixels img) then
           (case js_get (pixels img) (int ((4 * ?i + j) div 4)) of None \<Rightarrow> ?s ! (4 * ?i + j)
            | Some c \<Rightarrow> ToUint8 (channel ((4 * ?i + j) mod 4) c))
         else ?s ! (4 * ?i + j))"
    using m_len unfolding js_forEach_def by blast
  then show ?thesis
    unfolding dv md using i_len stored by simp
qed

text \<open>
  Claim C7.  For an image of non-negative width and height whose sequence has
  \<open>width * height\<close> elements, \<^verbatim>\<open>toUint8Array\<close> returns \<open>width * height * 4\<close> bytes, and
  for every in-bounds coordinate \<open>(x, y)\<close> whose cell is a color with components in
  range, the bytes at the offsets \<open>4 * (y * width + x)\<close> to \<open>4 * (y * width + x) + 3\<close>
  are the cell's red, green, blue and alpha components.
\<close>

theorem C7_toUint8Array_bytes:
  assumes "0 \<le> width img" and "0 \<le> height img"
      and "int (len (pixels img)) = width img * height img"
  shows "\<exists>bytes. toUint8Array img = Inr bytes
    \<and> length bytes = nat (width img * height img * 4)
    \<and> (\<forall>p c. checkBounds img p = Inr () \<and> getPixel img p = Some c
           \<and> in_range (color_r c) \<and> in_range (color_g c)
           \<and> in_range (color_b c) \<and> in_range (color_a c) \<longrightarrow>
          num (uint (bytes ! (4 * nat (pixel_y p * width img + pixel_x p)))) = color_r c
        \<and> num (uint (bytes ! (4 * nat (pixel_y p * width img + pixel_x p) + 1))) = color_g c
        \<and> num (uint (bytes ! (4 * nat (pixel_y p * width img + pixel_x p) + 2))) = color_b c
        \<and> num (uint (bytes ! (4 * nat (pixel_y p * width img + pixel_x p) + 3))) = color_a c)"
proof -
  let ?bytes = "js_forEach store_color (pixels img) (replicate (nat (width img * height img * 4)) 0)"
  have res: "toUint8Array img = Inr ?bytes"
    using assms by (rule toUint8Array_bytes)
  have ln: "length ?bytes = nat (width img * height img * 4)"
    using forEach_store_color [where arr = "pixels img" and n = "len (pixels img)"
        and s = "replicate (nat (width img * height img * 4)) 0"]
    unfolding js_forEach_def by simp
  have cell: "num (uint (?bytes ! (4 * nat (pixel_y p * width img + pixel_x p)))) = color_r c
        \<and> num (uint (?bytes ! (4 * nat (pixel_y p * width img + pixel_x p) + 1))) = color_g c
        \<and> num (uint (?bytes ! (4 * nat (pixel_y p * width img + pixel_x p) + 2))) = color_b c
        \<and> num (uint (?bytes ! (4 * nat (pixel_y p * width img + pixel_x p) + 3))) = color_a c"
    if h: "checkBounds img p = Inr () \<and> getPixel img p = Some c
           \<and> in_range (color_r c) \<and> in_range (color_g c)
           \<and> in_range (color_b c) \<and> in_range (color_a c)" for p c
  proof -
    note t = toUint8Array_cell [OF assms, of p c]
    have "?bytes ! (4 * nat (pixel_y p * width img + pixel_x p) + 0) = ToUint8 (color_r c)"
      using t [of 0] h by (simp add: channel_def)
    moreover have "?bytes ! (4 * nat (pixel_y p * width img + pixel_x p) + 1) = ToUint8 (color_g c)"
      using t [of 1] h by (simp add: channel_def)
    moreover have "?bytes ! (4 * nat (pixel_y p * width img + pixel_x p) + 2) = ToUint8 (color_b c)"
      using t [of 2] h by (simp add: channel_def)
    moreover have "?bytes ! (4 * nat (pixel_y p * width img + pixel_x p) + 3) = ToUint8 (color_a c)"
      using t [of 3] h by (simp add: channel_def)
    ultimately show ?thesis
      using h by (simp add: ToUint8_in_range)
  qed
  show ?thesis
    using res ln cell by blast
qed

lemma red_blue_image_eq:
  "red_blue_image = updatePixels (row_major_image 2 1 None)
     [(\<lparr>pixel_x = 0, pixel_y = 0\<rparr>, Colors_Red), (\<lparr>pixel_x = 1, pixel_y = 0\<rparr>, Colors_Blue)]"
  by (simp add: red_blue_image_def new_Image_eq)

lemma red_blue_image_shape:
  "width red_blue_image = 2 \<and> height red_blue_image = 1 \<and> len (pixels red_blue_image) = 2"
proof -
  have f0: "flat_index 2 \<lparr>pixel_x = 0, pixel_y = 0\<rparr> = num 0"
    using flat_index_exact [of "\<lparr>pixel_x = 0, pixel_y = 0\<rparr>" 2] by simp
  have f1: "flat_index 2 \<lparr>pixel_x = 1, pixel_y = 0\<rparr> = num 1"
    using flat_index_exact [of "\<lparr>pixel_x = 1, pixel_y = 0\<rparr>" 2] by simp
  have "\<forall>(p, c) \<in> set [(\<lparr>pixel_x = 0, pixel_y = 0\<rparr>, Colors_Red), (\<lparr>pixel_x = 1, pixel_y = 0\<rparr>, Colors_Blue)].
      index_in (flat_index (width (row_major_image 2 1 None)) p)
        (int (len (pixels (row_major_image 2 1 None))))"
    by (simp add: row_major_image_simps f0 f1 index_in_num)
  from updatePixels_invariant [OF this]
  show ?thesis
    by (simp add: red_blue_image_eq row_major_image_simps)
qed

lemma red_blue_image_cells:
  "js_get (pixels red_blue_image) 0 = Some Colors_Red"
  "js_get (pixels red_blue_image) 1 = Some Colors_Blue"
proof -
  have f0: "flat_index 2 \<lparr>pixel_x = 0, pixel_y = 0\<rparr> = num 0"
    using flat_index_exact [of "\<lparr>pixel_x = 0, pixel_y = 0\<rparr>" 2] by simp
  have f1: "flat_index 2 \<lparr>pixel_x = 1, pixel_y = 0\<rparr> = num 1"
    using flat_index_exact [of "\<lparr>pixel_x = 1, pixel_y = 0\<rparr>" 2] by simp
  show "js_get (pixels red_blue_image) 0 = Some Colors_Red"
    and "js_get (pixels red_blue_image) 1 = Some Colors_Blue"
    by (simp_all add: red_blue_image_eq updatePixels_def pixels_updatePixel width_updatePixel
        row_major_image_simps f0 f1 js_get_def js_at_def props_js_put num_eq_iff)
qed

lemma red_blue_image_bytes:
  "toUint8Array red_blue_image = Inr [255, 0, 0, 255, 0, 0, 255, 255]"
proof -
  have h1: "0 \<le> width red_blue_image" and h2: "0 \<le> height red_blue_image"
    and h3: "int (len (pixels red_blue_image)) = width red_blue_image * height red_blue_image"
    using red_blue_image_shape by simp_all
  have two: "[0..<2] = [0, Suc 0]"
    by (simp add: upt_rec)
  have eight: "replicate 8 (0 :: 8 word) = [0, 0, 0, 0, 0, 0, 0, 0]"
    by (simp add: eval_nat_numeral)
  have b255: "ToUint8 (num 255) = 255" and b0: "ToUint8 (num 0) = 0"
    by (simp_all add: ToUint8_def num_def trunc_def)
  show ?thesis
    unfolding toUint8Array_bytes [OF h1 h2 h3]
    using red_blue_image_cells
    by (simp add: js_forEach_def red_blue_image_shape two eight store_color_def uint8_store_def
        Colors_Red_def Colors_Blue_def b255 b0)
qed

text \<open>
  The 2 by 1 image with a red and a blue cell gives the bytes
  \<open>255, 0, 0, 255, 0, 0, 255, 255\<close>.
\<close>

theorem C7_red_blue_bytes:
  "0 \<le> width red_blue_image \<and> 0 \<le> height red_blue_image
   \<and> int (len (pixels red_blue_image)) = width red_blue_image * height red_blue_image
   \<and> toUint8Array red_blue_image = Inr [255, 0, 0, 255, 0, 0, 255, 255]
   \<and> (\<exists>bytes. toUint8Array red_blue_image = Inr bytes \<and> length bytes = 8)"
proof -
  have h1: "0 \<le> width red_blue_image" and h2: "0 \<le> height red_blue_image"
    and h3: "int (len (pixels red_blue_image)) = width red_blue_image * height red_blue_image"
    using red_blue_image_shape by simp_all
  from C7_toUint8Array_bytes [OF h1 h2 h3]
  obtain bytes where "toUint8Array red_blue_image = Inr bytes"
    and "length bytes = nat (width red_blue_image * height red_blue_image * 4)"
    by blast
  then have "\<exists>bytes. toUint8Array red_blue_image = Inr bytes \<and> length bytes = 8"
    using red_blue_image_shape by simp
  then show ?thesis
    using h1 h2 h3 red_blue_image_bytes by simp
qed

section \<open>Color.fromHex\<close>

lemma fromHex_examples:
  "fromHex ''#FF8040'' = Inr \<lparr>color_r = num 255, color_g = num 128, color_b = num 64, color_a = num 255\<rparr>"
  "fromHex ''FF8040'' = Inr \<lparr>color_r = num 255, color_g = num 128, color_b = num 64, color_a = num 255\<rparr>"
  "fromHex ''#F84'' = Inr \<lparr>color_r = num 255, color_g = num 136, color_b = num 68, color_a = num 255\<rparr>"
  "fromHex ''#FF8040C8'' = Inr \<lparr>color_r = num 255, color_g = num 128, color_b = num 64, color_a = num 200\<rparr>"
  by code_simp+

lemma fromHex_failures:
  "fromHex ''#XYZ'' = Inl InvalidColorComponents"
  "fromHex ''#12345'' = Inl (InvalidHexColor ''12345'')"
  "fromHex [] = Inl (InvalidHexColor [])"
  "fromHex ''#1234567'' = Inl (InvalidHexColor ''1234567'')"
  by code_simp+

text \<open>
  What holds of the claim: the error of the length is raised exactly for the lengths
  other than 3, 6 and 8, and a string of 3, 6 or 8 hexadecimal digits is accepted.
\<close>

lemma new_Color_not_InvalidHexColor: "new_Color r g b a \<noteq> Inl (InvalidHexColor h)"
  by (simp add: new_Color_def)

lemma length_doubled: "length (concat (map (\<lambda>c. [c, c]) s)) = 2 * length s"
  by (induction s) simp_all

lemma fromHex_cases:
  "fromHex hex =
     (let h = strip_hash hex;
          h8 = (if length h = 3 then concat (map (\<lambda>c. [c, c]) h) @ ''FF''
                else if length h = 6 then h @ ''FF'' else h)
      in if length h = 3 \<or> length h = 6 \<or> length h = 8
         then new_Color (parseInt16 (slice_str h8 0 2)) (parseInt16 (slice_str h8 2 4))
                (parseInt16 (slice_str h8 4 6)) (parseInt16 (slice_str h8 6 8))
         else Inl (InvalidHexColor h))"
proof -
  consider "length (strip_hash hex) = 3" | "length (strip_hash hex) = 6"
    | "length (strip_hash hex) = 8"
    | "length (strip_hash hex) \<noteq> 3" "length (strip_hash hex) \<noteq> 6" "length (strip_hash hex) \<noteq> 8"
    by blast
  then show ?thesis
  proof cases
    case 1
    then show ?thesis
      unfolding fromHex_def strip_hash_def [symmetric] Let_def
      by (simp add: length_doubled)
  next
    case 2
    then show ?thesis
      unfolding fromHex_def strip_hash_def [symmetric] Let_def by simp
  next
    case 3
    then show ?thesis
      unfolding fromHex_def strip_hash_def [symmetric] Let_def by simp
  next
    case 4
    then show ?thesis
      unfolding fromHex_def strip_hash_def [symmetric] Let_def by simp
  qed
qed

lemma fromHex_length_error:
  "(\<exists>h. fromHex hex = Inl (InvalidHexColor h)) =
     (length (strip_hash hex) \<noteq> 3 \<and> length (strip_hash hex) \<noteq> 6 \<and> length (strip_hash hex) \<noteq> 8)"
  unfolding fromHex_cases Let_def
  by (simp add: new_Color_not_InvalidHexColor)

lemma parseInt16_two_digits:
  assumes "hex_digit c \<noteq> None" and "hex_digit d \<noteq> None"
  shows "parseInt16 [c, d] = num (16 * the (hex_digit c) + the (hex_digit d))"
proof -
  have nws: "\<not> is_whitespace c"
    using assms(1) by (auto simp: hex_digit_def is_whitespace_def Let_def split: if_splits)
  have ns: "c \<noteq> CHR ''-''" "c \<noteq> CHR ''+''" "d \<noteq> CHR ''x''" "d \<noteq> CHR ''X''"
    using assms by (auto simp: hex_digit_def Let_def)
  show ?thesis
    using assms nws ns by (simp add: parseInt16_def Let_def)
qed

lemma slice_pair:
  assumes "i + 2 \<le> length s"
  shows "slice_str s i (i + 2) = [s ! i, s ! Suc i]"
proof -
  have "drop i s = s ! i # drop (Suc i) s"
    using assms by (intro Cons_nth_drop_Suc [symmetric]) simp
  moreover have "drop (Suc i) s = s ! Suc i # drop (Suc (Suc i)) s"
    using assms by (intro Cons_nth_drop_Suc [symmetric]) simp
  ultimately show ?thesis
    by (simp add: slice_str_def)
qed

lemma parseInt16_slice:
  assumes "\<forall>c \<in> set s. hex_digit c \<noteq> None" and "i + 2 \<le> length s"
  shows "parseInt16 (slice_str s i (i + 2)) \<noteq> NaN"
proof -
  have "hex_digit (s ! i) \<noteq> None" "hex_digit (s ! Suc i) \<noteq> None"
    using assms by simp_all
  then show ?thesis
    unfolding slice_pair [OF assms(2)] by (simp add: parseInt16_two_digits num_def)
qed

lemma fromHex_well_formed:
  assumes "\<forall>c \<in> set (strip_hash hex). hex_digit c \<noteq> None"
      and "length (strip_hash hex) = 3 \<or> length (strip_hash hex) = 6 \<or> length (strip_hash hex) = 8"
  shows "\<exists>c. fromHex hex = Inr c"
proof -
  define h8 where "h8 = (if length (strip_hash hex) = 3
      then concat (map (\<lambda>c. [c, c]) (strip_hash hex)) @ ''FF''
      else if length (strip_hash hex) = 6 then strip_hash hex @ ''FF'' else strip_hash hex)"
  have F: "hex_digit CHR ''F'' \<noteq> None"
    by (simp add: hex_digit_def)
  have digits: "\<forall>c \<in> set h8. hex_digit c \<noteq> None"
    using assms(1) F by (auto simp: h8_def)
  have len: "length h8 = 8"
    using assms(2) by (auto simp: h8_def length_doubled)
  have "parseInt16 (slice_str h8 0 2) \<noteq> NaN"
    using parseInt16_slice [OF digits, of 0] len by (simp add: numeral_2_eq_2)
  moreover have "parseInt16 (slice_str h8 2 4) \<noteq> NaN"
    using parseInt16_slice [OF digits, of 2] len by simp
  moreover have "parseInt16 (slice_str h8 4 6) \<noteq> NaN"
    using parseInt16_slice [OF digits, of 4] len by simp
  moreover have "parseInt16 (slice_str h8 6 8) \<noteq> NaN"
    using parseInt16_slice [OF digits, of 6] len by simp
  ultimately have "\<exists>c. new_Color (parseInt16 (slice_str h8 0 2)) (parseInt16 (slice_str h8 2 4))
                (parseInt16 (slice_str h8 4 6)) (parseInt16 (slice_str h8 6 8)) = Inr c"
    by (simp add: new_Color_def isNaN_iff)
  then show ?thesis
    unfolding fromHex_cases Let_def h8_def [symmetric] using assms(2) by simp
qed

text \<open>
  Claim C4.  The specification asks that \<^verbatim>\<open>fromHex\<close> fail on every string that holds
  a character that is no hexadecimal digit.  The code has no check of the digits: it
  relies on \<^verbatim>\<open>parseInt\<close> giving not-a-number, which the constructor rejects.  But
  \<^verbatim>\<open>parseInt("1G", 16)\<close> is 1, the value of the digits before the \<^verbatim>\<open>G\<close>: the string
  \<^verbatim>\<open>#1G0000\<close> is accepted, as the color \<open>(1, 0, 0, 255)\<close>.
\<close>

theorem C4_fromHex_accepts_a_non_digit:
  "hex_digit CHR ''G'' = None
   \<and> fromHex ''#1G0000'' =
       Inr \<lparr>color_r = num 1, color_g = num 0, color_b = num 0, color_a = num 255\<rparr>"
  by code_simp

section \<open>Compositing\<close>

text \<open>
  The error of one rounding: a non-negative number below \<open>2^17\<close> is rounded to a
  non-negative double no further than \<open>2^(-36)\<close> from it.
\<close>

lemma round_half_even_error: "\<bar>rat_of_int (round_half_even t) - t\<bar> \<le> 1 / 2"
proof -
  have "rat_of_int \<lfloor>t\<rfloor> \<le> t" and "t < rat_of_int \<lfloor>t\<rfloor> + 1"
    by linarith+
  then show ?thesis
    by (auto simp: round_half_even_def Let_def)
qed

lemma round_half_even_nonneg: "0 \<le> t \<Longrightarrow> 0 \<le> round_half_even t"
  by (auto simp: round_half_even_def Let_def)

lemma fl_abs_error:
  assumes "0 \<le> q" and "q < 2 ^ 17"
  shows "\<exists>y. fl q = Fin y \<and> 0 \<le> y \<and> \<bar>y - q\<bar> \<le> 1 / 2 ^ 36"
proof (cases "q = 0")
  case True
  then show ?thesis by (simp add: fl_def)
next
  case False
  then have pos: "0 < q" using assms(1) by simp
  define e where "e = max (ilog2 \<bar>q\<bar>) (- 1022)"
  define ulp :: rat where "ulp = 2 powi (e - 52)"
  define m where "m = round_half_even (\<bar>q\<bar> / ulp)"
  have "(2::rat) powi (ilog2 q) \<le> q"
    using pos by (rule ilog2_lower)
  also have "q < 2 powi 17"
    using assms(2) by simp
  finally have "ilog2 q < 17"
    by (rule power_int_le_imp_less_exp [rotated]) simp_all
  then have e17: "e - 52 \<le> - 36"
    using pos by (simp add: e_def)
  have ulp_pos: "0 < ulp"
    by (simp add: ulp_def)
  have "ulp \<le> 2 powi (- 36)"
    unfolding ulp_def using e17 by (intro power_int_increasing) simp_all
  then have ulp_le: "ulp \<le> 1 / 2 ^ 36"
    by (simp add: power_int_minus_divide)
  have m_nonneg: "0 \<le> m"
    unfolding m_def using pos ulp_pos by (intro round_half_even_nonneg) simp
  have "\<bar>rat_of_int m - q / ulp\<bar> \<le> 1 / 2"
    unfolding m_def using pos round_half_even_error [of "q / ulp"] by simp
  then have "\<bar>rat_of_int m - q / ulp\<bar> * ulp \<le> 1 / 2 * ulp"
    using ulp_pos by (intro mult_right_mono) simp_all
  moreover have "\<bar>rat_of_int m - q / ulp\<bar> * ulp = \<bar>rat_of_int m * ulp - q\<bar>"
    using ulp_pos by (simp add: abs_mult_pos' [symmetric] field_simps)
  ultimately have err: "\<bar>rat_of_int m * ulp - q\<bar> \<le> 1 / 2 * ulp"
    by simp
  then have err36: "\<bar>rat_of_int m * ulp - q\<bar> \<le> 1 / 2 ^ 36"
    using ulp_le ulp_pos by linarith
  have r_nonneg: "0 \<le> rat_of_int m * ulp"
    using m_nonneg ulp_pos by simp
  have "(1::rat) / 2 ^ 36 \<le> 1"
    by simp
  then have "rat_of_int m * ulp < 2 ^ 17 + 1"
    using err36 assms(2) by linarith
  also have "\<dots> \<le> (2::rat) ^ 1024"
    by simp
  finally have no_overflow: "\<not> 2 powi 1024 \<le> rat_of_int m * ulp"
    by simp
  have "fl q = Fin (rat_of_int m * ulp)"
    using pos no_overflow unfolding m_def ulp_def e_def
    by (simp add: fl_def Let_def)
  then show ?thesis
    using r_nonneg err36 by simp
qed

lemma fl_obtain:
  assumes "0 \<le> q" and "q \<le> 100000"
  obtains y where "fl q = Fin y" and "0 \<le> y"
    and "y \<le> q + 1 / 68719476736" and "q - 1 / 68719476736 \<le> y"
proof -
  have "q < 2 ^ 17" using assms(2) by simp
  from fl_abs_error [OF assms(1) this]
  obtain y where y: "fl q = Fin y" "0 \<le> y" "\<bar>y - q\<bar> \<le> 1 / 2 ^ 36"
    by blast
  have e: "(1::rat) / 2 ^ 36 = 1 / 68719476736"
    by simp
  have "y \<le> q + 1 / 68719476736" and "q - 1 / 68719476736 \<le> y"
    using y(3) unfolding e by linarith+
  with y(1,2) show ?thesis
    by (rule that)
qed

lemma fl_zero: "fl 0 = Fin 0"
  by (simp add: fl_def)

lemma fl_one: "fl 1 = Fin 1"
  by (simp add: fl_eval)

lemma js_sub_Fin: "js_sub (Fin x) (Fin y) = fl (x - y)"
  by (simp add: js_sub_def)

lemma alpha_quotient:
  assumes "0 \<le> k" and "k \<le> 255"
  obtains t where "js_div (num k) (Fin 255) = Fin t" and "0 \<le> t" and "t \<le> 1"
    and "k = 0 \<longrightarrow> t = 0" and "1 \<le> k \<longrightarrow> 1 / 256 \<le> t"
proof -
  consider "k = 0" | "k = 255" | "1 \<le> k" "k \<le> 254"
    using assms by linarith
  then show ?thesis
  proof cases
    case 1
    then show ?thesis
      by (intro that [of 0]) (simp_all add: num_def fl_zero)
  next
    case 2
    then show ?thesis
      by (intro that [of 1]) (simp_all add: num_def fl_one)
  next
    case 3
    have lo: "1 / 255 \<le> rat_of_int k / 255" and hi: "rat_of_int k / 255 \<le> 254 / 255"
      using 3 by simp_all
    obtain y where y: "fl (rat_of_int k / 255) = Fin y" "0 \<le> y"
        "y \<le> rat_of_int k / 255 + 1 / 68719476736" "rat_of_int k / 255 - 1 / 68719476736 \<le> y"
      using lo hi by (elim fl_obtain [of "rat_of_int k / 255", rotated 2]) simp_all
    show ?thesis
    proof (intro that [of y])
      show "js_div (num k) (Fin 255) = Fin y"
        using y(1) by (simp add: num_def)
      show "0 \<le> y" by (rule y(2))
      show "y \<le> 1" using y(3) hi by linarith
      show "k = 0 \<longrightarrow> y = 0" using 3 by simp
      show "1 \<le> k \<longrightarrow> 1 / 256 \<le> y" using y(4) lo by linarith
    qed
  qed
qed

lemma fl_ex:
  assumes "0 \<le> q" and "q \<le> 100000"
  shows "\<exists>y. fl q = Fin y \<and> 0 \<le> y \<and> y \<le> q + 1 / 68719476736 \<and> q - 1 / 68719476736 \<le> y"
  using fl_obtain [OF assms] by metis

text \<open>
  The alphas of two colors in range: the doubles \<open>t\<close>, \<open>b\<close>, \<open>u\<close>, \<open>v\<close>, \<open>r\<close> computed
  for \<open>ta\<close>, \<open>ba\<close>, \<open>1 - ta\<close>, \<open>ba * (1 - ta)\<close> and \<open>ra\<close>.  The result alpha is 0
  when both alphas are 0, and at least \<open>1 / 512 - 2^(-35)\<close> otherwise.
\<close>

lemma alphas_analysis:
  assumes "0 \<le> ka" "ka \<le> 255" "0 \<le> kb" "kb \<le> 255"
  obtains t b u v r where
    "js_div (num ka) (Fin 255) = Fin t" and "js_div (num kb) (Fin 255) = Fin b"
    and "js_sub (Fin 1) (Fin t) = Fin u" and "js_mul (Fin b) (Fin u) = Fin v"
    and "js_add (Fin t) (Fin v) = Fin r"
    and "0 \<le> t" and "t \<le> 1" and "0 \<le> b" and "b \<le> 1"
    and "0 \<le> u" and "u \<le> 2" and "0 \<le> r"
    and "r \<le> t + b * u + 2 / 68719476736" and "t + b * u - 2 / 68719476736 \<le> r"
    and "t + b * u \<le> 1 + 1 / 68719476736"
    and "ka = 0 \<and> kb = 0 \<longrightarrow> r = 0"
    and "\<not> (ka = 0 \<and> kb = 0) \<longrightarrow> 1 / 512 \<le> t + b * u"
proof -
  obtain t where t: "js_div (num ka) (Fin 255) = Fin t" "0 \<le> t" "t \<le> 1"
      "ka = 0 \<longrightarrow> t = 0" "1 \<le> ka \<longrightarrow> 1 / 256 \<le> t"
    using assms(1,2) by (rule alpha_quotient)
  obtain b where b: "js_div (num kb) (Fin 255) = Fin b" "0 \<le> b" "b \<le> 1"
      "kb = 0 \<longrightarrow> b = 0" "1 \<le> kb \<longrightarrow> 1 / 256 \<le> b"
    using assms(3,4) by (rule alpha_quotient)
  obtain u where u: "fl (1 - t) = Fin u" "0 \<le> u"
      "u \<le> 1 - t + 1 / 68719476736" "1 - t - 1 / 68719476736 \<le> u"
    using fl_ex [of "1 - t"] t(2,3) by auto
  have u2: "u \<le> 2" using u(3) t(2) by linarith
  have bu0: "0 \<le> b * u" using b(2) u(2) by simp
  have "b * u \<le> 1 * u" using b(3) u(2) by (intro mult_right_mono)
  then have buu: "b * u \<le> u" by simp
  obtain v where v: "fl (b * u) = Fin v" "0 \<le> v"
      "v \<le> b * u + 1 / 68719476736" "b * u - 1 / 68719476736 \<le> v"
    using fl_ex [of "b * u"] bu0 buu u2 by auto
  have tv: "0 \<le> t + v" "t + v \<le> 100000"
    using t(2,3) v(2,3) buu u2 by linarith+
  obtain r where r: "fl (t + v) = Fin r" "0 \<le> r"
      "r \<le> t + v + 1 / 68719476736" "t + v - 1 / 68719476736 \<le> r"
    using fl_ex [OF tv] by auto
  have zero: "r = 0" if "ka = 0 \<and> kb = 0"
  proof -
    have "t = 0" "b = 0" using that t(4) b(4) by simp_all
    then have "v = 0" using v(1) by (simp add: fl_zero)
    then show ?thesis using r(1) \<open>t = 0\<close> by (simp add: fl_zero)
  qed
  have nonzero: "1 / 512 \<le> t + b * u" if "\<not> (ka = 0 \<and> kb = 0)"
  proof (cases "ka = 0")
    case False
    then have "1 / 256 \<le> t" using assms(1) t(5) by simp
    then show ?thesis using bu0 by linarith
  next
    case True
    then have t0: "t = 0" using t(4) by simp
    have "1 \<le> kb" using that True assms(3) by simp
    then have b256: "1 / 256 \<le> b" using b(5) by simp
    have u1: "1 / 2 \<le> u" using u(4) t0 by simp
    have "1 / 256 * (1 / 2) \<le> b * u"
      using b256 u1 by (intro mult_mono) simp_all
    then show ?thesis using t0 by simp
  qed
  show ?thesis
  proof (rule that [of t b u v r])
    show "js_div (num ka) (Fin 255) = Fin t" by (rule t(1))
    show "js_div (num kb) (Fin 255) = Fin b" by (rule b(1))
    show "js_sub (Fin 1) (Fin t) = Fin u" using u(1) by (simp add: js_sub_Fin)
    show "js_mul (Fin b) (Fin u) = Fin v" using v(1) by simp
    show "js_add (Fin t) (Fin v) = Fin r" using r(1) by simp
    show "0 \<le> t" "t \<le> 1" "0 \<le> b" "b \<le> 1" "0 \<le> u" "u \<le> 2" "0 \<le> r"
      by (rule t(2) t(3) b(2) b(3) u(2) u2 r(2))+
    show "r \<le> t + b * u + 2 / 68719476736" using r(3) v(3) by linarith
    show "t + b * u - 2 / 68719476736 \<le> r" using r(4) v(4) by linarith
    show "t + b * u \<le> 1 + 1 / 68719476736" using buu u(3) by linarith
    show "ka = 0 \<and> kb = 0 \<longrightarrow> r = 0" using zero by blast
    show "\<not> (ka = 0 \<and> kb = 0) \<longrightarrow> 1 / 512 \<le> t + b * u" using nonzero by blast
  qed
qed

lemma Math_round_bound:
  assumes "0 \<le> z" and "z \<le> 255 + 1 / 4"
  shows "\<exists>k. Math_round (Fin z) = num k \<and> 0 \<le> k \<and> k \<le> 255"
proof -
  have "0 \<le> \<lfloor>z + 1 / 2\<rfloor>" using assms(1) by simp
  moreover have "\<lfloor>z + 1 / 2\<rfloor> < 256" using assms(2) by (simp add: floor_less_iff)
  ultimately show ?thesis
    by (intro exI [of _ "\<lfloor>z + 1 / 2\<rfloor>"]) (simp add: num_def)
qed

text \<open>
  A component of the result: five roundings above, one below, and the quotient stays
  under \<open>255 + 1/4\<close>, so that it rounds to an integer from 0 to 255.
\<close>

lemma channel_bound:
  assumes t: "0 \<le> t" and b: "0 \<le> b" and u: "0 \<le> u" "u \<le> 2"
      and r: "t + b * u - 2 / 68719476736 \<le> r" and d: "1 / 512 \<le> t + b * u"
      and tc: "0 \<le> tc" "tc \<le> 255" and bc: "0 \<le> bc" "bc \<le> 255"
      and b1: "b \<le> 1" and t1: "t \<le> 1"
  shows "\<exists>k. Math_round (js_div
            (js_add (js_mul (Fin tc) (Fin t)) (js_mul (js_mul (Fin bc) (Fin b)) (Fin u)))
            (Fin r)) = num k \<and> 0 \<le> k \<and> k \<le> 255"
proof -
  define bu where "bu = b * u"
  have r': "t + bu - 2 / 68719476736 \<le> r" and d': "1 / 512 \<le> t + bu"
    using r d by (simp_all add: bu_def)
  have tct: "0 \<le> tc * t" "tc * t \<le> 255 * t"
    using tc t by (simp_all add: mult_right_mono)
  have "tc * t \<le> 100000" using tct(2) t1 by linarith
  from fl_ex [OF tct(1) this]
  obtain p1 where p1: "fl (tc * t) = Fin p1" "0 \<le> p1" "p1 \<le> tc * t + 1 / 68719476736"
    by blast
  have bcb: "0 \<le> bc * b" "bc * b \<le> 255 * b"
    using bc b by (simp_all add: mult_right_mono)
  have "bc * b \<le> 100000" using bcb(2) b1 by linarith
  from fl_ex [OF bcb(1) this]
  obtain w where w: "fl (bc * b) = Fin w" "0 \<le> w" "w \<le> bc * b + 1 / 68719476736"
    by blast
  have w256: "w \<le> 256" using w(3) bcb(2) b1 by linarith
  have wu0: "0 \<le> w * u" using w(2) u(1) by simp
  have "w * u \<le> 256 * 2" using w256 u w(2) by (intro mult_mono) simp_all
  then have wu1: "w * u \<le> 100000" by simp
  have "w * u \<le> (255 * b + 1 / 68719476736) * u"
    using w(3) bcb(2) u(1) by (intro mult_right_mono) linarith+
  also have "\<dots> = 255 * bu + 1 / 68719476736 * u"
    by (simp add: algebra_simps bu_def)
  also have "\<dots> \<le> 255 * bu + 2 / 68719476736"
    using u(2) by simp
  finally have wu: "w * u \<le> 255 * bu + 2 / 68719476736" .
  from fl_ex [OF wu0 wu1]
  obtain p2 where p2: "fl (w * u) = Fin p2" "0 \<le> p2" "p2 \<le> w * u + 1 / 68719476736"
    by blast
  have bu2: "bu \<le> 2"
  proof -
    have "b * u \<le> 1 * 2" using b1 u b by (intro mult_mono) simp_all
    then show ?thesis by (simp add: bu_def)
  qed
  have s0: "0 \<le> p1 + p2" using p1(2) p2(2) by simp
  have s1: "p1 + p2 \<le> 255 * t + 255 * bu + 4 / 68719476736"
    using p1(3) tct(2) p2(3) wu by linarith
  have s2: "p1 + p2 \<le> 100000"
    using s1 t1 bu2 by linarith
  from fl_ex [OF s0 s2]
  obtain n where n: "fl (p1 + p2) = Fin n" "0 \<le> n" "n \<le> p1 + p2 + 1 / 68719476736"
    by blast
  have rpos: "0 < r" using r' d' by linarith
  have "n \<le> 2041 / 8 * r"
    using n(3) s1 r' d' by linarith
  then have q1: "n / r \<le> 2041 / 8"
    using rpos by (simp add: pos_divide_le_eq)
  have q0: "0 \<le> n / r" using n(2) rpos by simp
  have "n / r \<le> 100000" using q1 by linarith
  from fl_ex [OF q0 this]
  obtain z where z: "fl (n / r) = Fin z" "0 \<le> z" "z \<le> n / r + 1 / 68719476736"
    by blast
  have zb: "z \<le> 255 + 1 / 4" using z(3) q1 by linarith
  have "js_div (js_add (js_mul (Fin tc) (Fin t)) (js_mul (js_mul (Fin bc) (Fin b)) (Fin u))) (Fin r)
      = Fin z"
    using p1(1) w(1) p2(1) n(1) z(1) rpos by simp
  then show ?thesis
    using Math_round_bound [OF z(2) zb] by simp
qed

lemma alpha_bound:
  assumes "0 \<le> r" and "r \<le> t + b * u + 2 / 68719476736"
      and "t + b * u \<le> 1 + 1 / 68719476736"
  shows "\<exists>k. Math_round (js_mul (Fin r) (Fin 255)) = num k \<and> 0 \<le> k \<and> k \<le> 255"
proof -
  have r1: "r \<le> 1 + 3 / 68719476736" using assms(2,3) by linarith
  have "0 \<le> r * 255" "r * 255 \<le> 100000" using assms(1) r1 by linarith+
  from fl_ex [OF this]
  obtain z where z: "fl (r * 255) = Fin z" "0 \<le> z" "z \<le> r * 255 + 1 / 68719476736"
    by blast
  have "z \<le> 255 + 1 / 4" using z(3) r1 by linarith
  then show ?thesis
    using Math_round_bound [OF z(2)] z(1) by simp
qed

lemma composite_eq:
  "composite top_color bottom_color =
     new_Color (color_r (porter_duff_over top_color bottom_color))
               (color_g (porter_duff_over top_color bottom_color))
               (color_b (porter_duff_over top_color bottom_color))
               (color_a (porter_duff_over top_color bottom_color))"
  by (simp add: composite_def porter_duff_over_def over_channel_def Let_def)

lemma in_range_num:
  assumes "in_range v"
  obtains k where "v = num k" and "0 \<le> k" and "k \<le> 255"
proof -
  obtain q where v: "v = Fin q" and q: "0 \<le> q" "q \<le> 255" and "\<exists>n. q = rat_of_int n"
    using assms by (cases v) (simp_all add: in_range_def)
  then have fq: "q = rat_of_int \<lfloor>q\<rfloor>" by auto
  have "0 \<le> \<lfloor>q\<rfloor>" using q(1) by simp
  moreover have "\<lfloor>q\<rfloor> \<le> 255" using q(2) by (simp add: floor_le_iff)
  moreover have "v = num \<lfloor>q\<rfloor>" using v fq by (simp add: num_def)
  ultimately show ?thesis using that by blast
qed

lemma in_range_numI: "0 \<le> k \<Longrightarrow> k \<le> 255 \<Longrightarrow> in_range (num k)"
  by (simp add: in_range_def num_def)

lemma new_Color_in_range:
  assumes "0 \<le> r" "r \<le> 255" "0 \<le> g" "g \<le> 255" "0 \<le> b" "b \<le> 255" "0 \<le> a" "a \<le> 255"
  shows "new_Color (num r) (num g) (num b) (num a) =
           Inr \<lparr>color_r = num r, color_g = num g, color_b = num b, color_a = num a\<rparr>"
  unfolding new_Color_int using assms by simp

lemma porter_duff_over_in_range:
  assumes "in_range (color_r top_color)" "in_range (color_g top_color)"
      "in_range (color_b top_color)" "in_range (color_a top_color)"
      "in_range (color_r bottom_color)" "in_range (color_g bottom_color)"
      "in_range (color_b bottom_color)" "in_range (color_a bottom_color)"
  shows "\<exists>r g b a. porter_duff_over top_color bottom_color =
            \<lparr>color_r = num r, color_g = num g, color_b = num b, color_a = num a\<rparr>
          \<and> 0 \<le> r \<and> r \<le> 255 \<and> 0 \<le> g \<and> g \<le> 255 \<and> 0 \<le> b \<and> b \<le> 255 \<and> 0 \<le> a \<and> a \<le> 255"
proof -
  obtain tr where tr: "color_r top_color = num tr" "0 \<le> tr" "tr \<le> 255"
    using assms(1) by (rule in_range_num)
  obtain tg where tg: "color_g top_color = num tg" "0 \<le> tg" "tg \<le> 255"
    using assms(2) by (rule in_range_num)
  obtain tb where tb: "color_b top_color = num tb" "0 \<le> tb" "tb \<le> 255"
    using assms(3) by (rule in_range_num)
  obtain ka where ka: "color_a top_color = num ka" "0 \<le> ka" "ka \<le> 255"
    using assms(4) by (rule in_range_num)
  obtain br where br: "color_r bottom_color = num br" "0 \<le> br" "br \<le> 255"
    using assms(5) by (rule in_range_num)
  obtain bg where bg: "color_g bottom_color = num bg" "0 \<le> bg" "bg \<le> 255"
    using assms(6) by (rule in_range_num)
  obtain bb where bb: "color_b bottom_color = num bb" "0 \<le> bb" "bb \<le> 255"
    using assms(7) by (rule in_range_num)
  obtain kb where kb: "color_a bottom_color = num kb" "0 \<le> kb" "kb \<le> 255"
    using assms(8) by (rule in_range_num)
  obtain t b u v r where an:
    "js_div (num ka) (Fin 255) = Fin t" "js_div (num kb) (Fin 255) = Fin b"
    "js_sub (Fin 1) (Fin t) = Fin u" "js_mul (Fin b) (Fin u) = Fin v"
    "js_add (Fin t) (Fin v) = Fin r"
    and bd: "0 \<le> t" "t \<le> 1" "0 \<le> b" "b \<le> 1" "0 \<le> u" "u \<le> 2" "0 \<le> r"
    and rb: "r \<le> t + b * u + 2 / 68719476736" "t + b * u - 2 / 68719476736 \<le> r"
      "t + b * u \<le> 1 + 1 / 68719476736"
    and zr: "ka = 0 \<and> kb = 0 \<longrightarrow> r = 0"
      "\<not> (ka = 0 \<and> kb = 0) \<longrightarrow> 1 / 512 \<le> t + b * u"
    using ka(2,3) kb(2,3) by (rule alphas_analysis)
  have ra: "js_add (js_div (color_a top_color) (Fin 255))
       (js_mul (js_div (color_a bottom_color) (Fin 255))
               (js_sub (Fin 1) (js_div (color_a top_color) (Fin 255)))) = Fin r"
    by (simp only: ka(1) kb(1) an)
  show ?thesis
  proof (cases "r = 0")
    case True
    then have "porter_duff_over top_color bottom_color =
        \<lparr>color_r = num 0, color_g = num 0, color_b = num 0, color_a = num 0\<rparr>"
      unfolding porter_duff_over_def Let_def ra by (simp add: num_def)
    then show ?thesis by fastforce
  next
    case False
    then have d: "1 / 512 \<le> t + b * u" using zr by blast
    have ne: "Fin r \<noteq> Fin 0" using False by simp
    have ch: "\<exists>k. over_channel (num tc) (num bc) (Fin t) (Fin b) (Fin r) = num k \<and> 0 \<le> k \<and> k \<le> 255"
      if "0 \<le> tc" "tc \<le> 255" "0 \<le> bc" "bc \<le> 255" for tc bc :: int
    proof -
      have "\<exists>k. Math_round (js_div
            (js_add (js_mul (Fin (rat_of_int tc)) (Fin t))
                    (js_mul (js_mul (Fin (rat_of_int bc)) (Fin b)) (Fin u)))
            (Fin r)) = num k \<and> 0 \<le> k \<and> k \<le> 255"
        using bd rb d that by (intro channel_bound) simp_all
      then show ?thesis
        by (simp only: over_channel_def num_def an(3))
    qed
    obtain rr where rr: "over_channel (num tr) (num br) (Fin t) (Fin b) (Fin r) = num rr"
        "0 \<le> rr" "rr \<le> 255"
      using ch [OF tr(2,3) br(2,3)] by blast
    obtain rg where rg: "over_channel (num tg) (num bg) (Fin t) (Fin b) (Fin r) = num rg"
        "0 \<le> rg" "rg \<le> 255"
      using ch [OF tg(2,3) bg(2,3)] by blast
    obtain rbl where rbl: "over_channel (num tb) (num bb) (Fin t) (Fin b) (Fin r) = num rbl"
        "0 \<le> rbl" "rbl \<le> 255"
      using ch [OF tb(2,3) bb(2,3)] by blast
    obtain rk where rk: "Math_round (js_mul (Fin r) (Fin 255)) = num rk" "0 \<le> rk" "rk \<le> 255"
      using alpha_bound [OF bd(7) rb(1,3)] by blast
    have "porter_duff_over top_color bottom_color =
        \<lparr>color_r = num rr, color_g = num rg, color_b = num rbl, color_a = num rk\<rparr>"
      by (simp only: porter_duff_over_def Let_def tr(1) tg(1) tb(1) br(1) bg(1) bb(1) ka(1) kb(1)
          an ne if_False rr(1) rg(1) rbl(1) rk(1))
    then show ?thesis
      using rr(2,3) rg(2,3) rbl(2,3) rk(2,3) by blast
  qed
qed

text \<open>Red of alpha 128 over opaque blue, by the algorithm: \<open>(128, 0, 127, 255)\<close>.\<close>

lemma porter_duff_over_red_blue:
  "porter_duff_over
       \<lparr>color_r = num 255, color_g = num 0, color_b = num 0, color_a = num 128\<rparr>
       \<lparr>color_r = num 0, color_g = num 0, color_b = num 255, color_a = num 255\<rparr>
     = \<lparr>color_r = num 128, color_g = num 0, color_b = num 127, color_a = num 255\<rparr>"
  by (simp add: porter_duff_over_def over_channel_def js_sub_def fl_eval num_def)

text \<open>
  Claim C1.  For every pair of colors whose components are integers from 0 to 255,
  the colors of the specification, \<^verbatim>\<open>composite\<close> returns exactly the color of the
  algorithm: \<open>(0, 0, 0, 0)\<close> when the result alpha is 0, and otherwise each of red,
  green and blue is \<open>round ((top.c * ta + bottom.c * ba * (1 - ta)) / ra)\<close> and alpha
  is \<open>round (ra * 255)\<close>.  These four values are again integers from 0 to 255, so
  the constructor, through which the result is built, changes nothing.  (For any two
  colors whatsoever, \<^verbatim>\<open>composite\<close> is the constructor applied to the four values of the
  algorithm.)
\<close>

theorem C1_composite_is_porter_duff_over:
  "composite top_color bottom_color =
     new_Color (color_r (porter_duff_over top_color bottom_color))
               (color_g (porter_duff_over top_color bottom_color))
               (color_b (porter_duff_over top_color bottom_color))
               (color_a (porter_duff_over top_color bottom_color))
   \<and> (in_range (color_r top_color) \<and> in_range (color_g top_color)
        \<and> in_range (color_b top_color) \<and> in_range (color_a top_color)
        \<and> in_range (color_r bottom_color) \<and> in_range (color_g bottom_color)
        \<and> in_range (color_b bottom_color) \<and> in_range (color_a bottom_color) \<longrightarrow>
       composite top_color bottom_color = Inr (porter_duff_over top_color bottom_color)
       \<and> in_range (color_r (porter_duff_over top_color bottom_color))
       \<and> in_range (color_g (porter_duff_over top_color bottom_color))
       \<and> in_range (color_b (porter_duff_over top_color bottom_color))
       \<and> in_range (color_a (porter_duff_over top_color bottom_color)))"
proof (intro conjI impI)
  show "composite top_color bottom_color =
     new_Color (color_r (porter_duff_over top_color bottom_color))
               (color_g (porter_duff_over top_color bottom_color))
               (color_b (porter_duff_over top_color bottom_color))
               (color_a (porter_duff_over top_color bottom_color))"
    by (rule composite_eq)
next
  assume h: "in_range (color_r top_color) \<and> in_range (color_g top_color)
        \<and> in_range (color_b top_color) \<and> in_range (color_a top_color)
        \<and> in_range (color_r bottom_color) \<and> in_range (color_g bottom_color)
        \<and> in_range (color_b bottom_color) \<and> in_range (color_a bottom_color)"
  then obtain r g b a where
    c: "porter_duff_over top_color bottom_color =
          \<lparr>color_r = num r, color_g = num g, color_b = num b, color_a = num a\<rparr>"
    and bd: "0 \<le> r" "r \<le> 255" "0 \<le> g" "g \<le> 255" "0 \<le> b" "b \<le> 255" "0 \<le> a" "a \<le> 255"
    using porter_duff_over_in_range [of top_color bottom_color] by blast
  show "composite top_color bottom_color = Inr (porter_duff_over top_color bottom_color)"
    unfolding composite_eq c using bd by (simp add: new_Color_in_range)
  show "in_range (color_r (porter_duff_over top_color bottom_color))"
    and "in_range (color_g (porter_duff_over top_color bottom_color))"
    and "in_range (color_b (porter_duff_over top_color bottom_color))"
    and "in_range (color_a (porter_duff_over top_color bottom_color))"
    unfolding c using bd by (simp_all add: in_range_numI)
qed

text \<open>
  \<^verbatim>\<open>composite(new Color(255, 0, 0, 128), new Color(0, 0, 255, 255))\<close> is
  \<open>(128, 0, 127, 255)\<close>.
\<close>

theorem C1_red_over_blue:
  "in_range (num 255) \<and> in_range (num 0) \<and> in_range (num 128)
   \<and> composite
       \<lparr>color_r = num 255, color_g = num 0, color_b = num 0, color_a = num 128\<rparr>
       \<lparr>color_r = num 0, color_g = num 0, color_b = num 255, color_a = num 255\<rparr>
     = Inr \<lparr>color_r = num 128, color_g = num 0, color_b = num 127, color_a = num 255\<rparr>"
proof -
  have r: "in_range (num 255)" "in_range (num 0)" "in_range (num 128)"
    by (simp_all add: in_range_numI)
  let ?T = "\<lparr>color_r = num 255, color_g = num 0, color_b = num 0, color_a = num 128\<rparr>"
  let ?B = "\<lparr>color_r = num 0, color_g = num 0, color_b = num 255, color_a = num 255\<rparr>"
  have prem: "in_range (color_r ?T) \<and> in_range (color_g ?T)
        \<and> in_range (color_b ?T) \<and> in_range (color_a ?T)
        \<and> in_range (color_r ?B) \<and> in_range (color_g ?B)
        \<and> in_range (color_b ?B) \<and> in_range (color_a ?B)"
    using r by simp
  from C1_composite_is_porter_duff_over [of ?T ?B, THEN conjunct2, THEN mp, OF prem]
  have "composite ?T ?B = Inr (porter_duff_over ?T ?B)"
    by (rule conjunct1)
  then show ?thesis
    using r by (simp only: porter_duff_over_red_blue simp_thms)
qed

end
